theory Spec2Isabelle
  imports Complex_Main "HOL-Library.AList"
begin

section \<open>The TTL cache of \<^verbatim>\<open>utils.py\<close>\<close>

text \<open>
  A Python \<^verbatim>\<open>dict\<close> keeps its keys in insertion order: assigning to a key that is
  present replaces the value in place, assigning to a new key appends it, and
  \<^verbatim>\<open>del\<close> removes it. That is \<open>AList.update\<close> and \<open>AList.delete\<close> on an
  association list; \<^verbatim>\<open>key in d\<close> is \<open>map_of d key \<noteq> None\<close> and \<^verbatim>\<open>len(d)\<close> is the
  length of the list. The order matters to \<^verbatim>\<open>min(d.keys(), key=...)\<close>, which
  returns the first minimal key.

  \<^verbatim>\<open>time.time()\<close> is an input: every call of it in the source is a parameter of the
  model (a reading of the clock, a real number of seconds).
\<close>

type_synonym ('k, 'v) dict = "('k \<times> 'v) list"

record 'v CacheEntry =
  data :: 'v
  created_at :: real
  ttl_seconds :: int

definition CacheEntry_init :: "'v \<Rightarrow> int \<Rightarrow> real \<Rightarrow> 'v CacheEntry" where
  "CacheEntry_init d ttl now = \<lparr>data = d, created_at = now, ttl_seconds = ttl\<rparr>"

definition is_expired :: "'v CacheEntry \<Rightarrow> real \<Rightarrow> bool" where
  "is_expired e now \<longleftrightarrow> now - created_at e > real_of_int (ttl_seconds e)"

record 'v TTLCache =
  cache :: "(string, 'v CacheEntry) dict"
  default_ttl_seconds :: int
  max_size :: int
  access_times :: "(string, real) dict"

definition TTLCache_init :: "int \<Rightarrow> int \<Rightarrow> 'v TTLCache" where
  "TTLCache_init dttl msize =
     \<lparr>cache = [], default_ttl_seconds = dttl, max_size = msize, access_times = []\<rparr>"

text \<open>\<^verbatim>\<open>_remove_entry\<close>: the returned flag says whether the key was there.\<close>

definition remove_entry :: "'v TTLCache \<Rightarrow> string \<Rightarrow> bool \<times> 'v TTLCache" where
  "remove_entry c key =
     (if map_of (cache c) key \<noteq> None
      then (True, c\<lparr>cache := AList.delete key (cache c),
                     access_times := (if map_of (access_times c) key \<noteq> None
                                      then AList.delete key (access_times c)
                                      else access_times c)\<rparr>)
      else (False, c))"

text \<open>
  \<^verbatim>\<open>min(keys, key=lambda k: access_times[k])\<close> keeps the first key and replaces it
  only by a key with a strictly smaller timestamp.
\<close>

fun min_by_time :: "string \<times> real \<Rightarrow> (string \<times> real) list \<Rightarrow> string \<times> real" where
  "min_by_time best [] = best"
| "min_by_time best (x # xs) = min_by_time (if snd x < snd best then x else best) xs"

definition evict_lru :: "'v TTLCache \<Rightarrow> 'v TTLCache" where
  "evict_lru c =
     (case access_times c of
        [] \<Rightarrow> c
      | x # xs \<Rightarrow> snd (remove_entry c (fst (min_by_time x xs))))"

text \<open>
  \<^verbatim>\<open>get\<close> reads the clock in \<^verbatim>\<open>is_expired\<close> (\<open>t_check\<close>) and, on a hit, again for the
  access time (\<open>t_access\<close>). It returns the value and the cache as it leaves it.
\<close>

definition TTLCache_get ::
  "'v TTLCache \<Rightarrow> string \<Rightarrow> 'v \<Rightarrow> real \<Rightarrow> real \<Rightarrow> 'v \<times> 'v TTLCache" where
  "TTLCache_get c key dflt t_check t_access =
     (case map_of (cache c) key of
        Some entry \<Rightarrow>
          if \<not> is_expired entry t_check
          then (data entry, c\<lparr>access_times := AList.update key t_access (access_times c)\<rparr>)
          else (dflt, snd (remove_entry c key))
      | None \<Rightarrow> (dflt, c))"

text \<open>
  \<^verbatim>\<open>set\<close> reads the clock in the constructor of the entry (\<open>t_created\<close>) and for the
  access time (\<open>t_access\<close>).
\<close>

definition TTLCache_set ::
  "'v TTLCache \<Rightarrow> string \<Rightarrow> 'v \<Rightarrow> int option \<Rightarrow> real \<Rightarrow> real \<Rightarrow> 'v TTLCache" where
  "TTLCache_set c key val ttl t_created t_access =
     (let ttl' = (case ttl of None \<Rightarrow> default_ttl_seconds c | Some t \<Rightarrow> t);
          c1 = (if int (length (cache c)) \<ge> max_size c then evict_lru c else c)
      in c1\<lparr>cache := AList.update key (CacheEntry_init val ttl' t_created) (cache c1),
             access_times := AList.update key t_access (access_times c1)\<rparr>)"

definition TTLCache_delete :: "'v TTLCache \<Rightarrow> string \<Rightarrow> bool \<times> 'v TTLCache" where
  "TTLCache_delete c key = remove_entry c key"

definition TTLCache_clear :: "'v TTLCache \<Rightarrow> 'v TTLCache" where
  "TTLCache_clear c = c\<lparr>cache := [], access_times := []\<rparr>"

text \<open>
  \<^verbatim>\<open>clear_expired\<close> calls \<^verbatim>\<open>is_expired\<close> once per entry, in the order of the dict;
  \<open>clk i\<close> is the clock reading of the \<open>i\<close>-th call.
\<close>

definition expired_keys :: "'v TTLCache \<Rightarrow> (nat \<Rightarrow> real) \<Rightarrow> string list" where
  "expired_keys c clk =
     map (\<lambda>(i, key, entry). key)
       (filter (\<lambda>(i, key, entry). is_expired entry (clk i)) (enumerate 0 (cache c)))"

definition TTLCache_clear_expired :: "'v TTLCache \<Rightarrow> (nat \<Rightarrow> real) \<Rightarrow> nat \<times> 'v TTLCache" where
  "TTLCache_clear_expired c clk =
     (let ks = expired_keys c clk
      in (length ks, foldl (\<lambda>c' key. snd (remove_entry c' key)) c ks))"

text \<open>
  The operations a caller can apply to a cache, with the clock readings each one makes,
  and a run of them.
\<close>

datatype 'v cache_op =
    Get string 'v real real
  | Set string 'v "int option" real real
  | Delete string
  | Clear
  | ClearExpired "nat \<Rightarrow> real"

fun apply_op :: "'v TTLCache \<Rightarrow> 'v cache_op \<Rightarrow> 'v TTLCache" where
  "apply_op c (Get key dflt t1 t2) = snd (TTLCache_get c key dflt t1 t2)"
| "apply_op c (Set key val ttl t1 t2) = TTLCache_set c key val ttl t1 t2"
| "apply_op c (Delete key) = snd (TTLCache_delete c key)"
| "apply_op c Clear = TTLCache_clear c"
| "apply_op c (ClearExpired clk) = snd (TTLCache_clear_expired c clk)"

definition run_ops :: "'v TTLCache \<Rightarrow> 'v cache_op list \<Rightarrow> 'v TTLCache" where
  "run_ops c ops = foldl apply_op c ops"

text \<open>
  The two dicts of a cache are well formed when each key occurs once in each (which a
  Python dict guarantees) and both have the same keys.
\<close>

definition same_keys :: "'v TTLCache \<Rightarrow> bool" where
  "same_keys c \<longleftrightarrow>
     distinct (map fst (cache c)) \<and> distinct (map fst (access_times c)) \<and>
     fst ` set (access_times c) = fst ` set (cache c)"

subsection \<open>The cache-fronted fetch\<close>

text \<open>
  \<^verbatim>\<open>get_cached_data\<close> keeps the cache in the session state, where it may be missing
  (\<open>None\<close>). The cached values are Python objects, among them \<^verbatim>\<open>None\<close>: the value
  type is \<open>'a option\<close>. The call of \<^verbatim>\<open>fetch_func\<close> is an input of the model: it
  raises an exception (with its message) or returns a value.
\<close>

definition CACHE_TTL_CONFIG :: "(string, int) dict" where
  "CACHE_TTL_CONFIG =
     [(''metadata'', 3600), (''resources'', 1800), (''resource_details'', 900),
      (''lookup_fields'', 7200), (''lookup_values'', 3600), (''query_results'', 300)]"

datatype 'a fetch_outcome = Raises string | Returns "'a option"

text \<open>
  \<^verbatim>\<open>initialize_ttl_cache\<close> creates the cache when the session has none, then clears the
  expired entries; the count is what the sidebar reports when it is positive.
\<close>

definition initialize_ttl_cache ::
  "'a option TTLCache option \<Rightarrow> (nat \<Rightarrow> real) \<Rightarrow> nat \<times> 'a option TTLCache" where
  "initialize_ttl_cache st clk =
     TTLCache_clear_expired (case st of None \<Rightarrow> TTLCache_init 3600 1000 | Some c \<Rightarrow> c) clk"

record clock_readings =
  init_clock :: "nat \<Rightarrow> real"
  check_time :: real
  hit_time :: real
  created_time :: real
  stored_time :: real

text \<open>
  The result is the returned value, the cache the session holds afterwards, and the
  message given to \<^verbatim>\<open>st.error\<close>, if any.
\<close>

definition get_cached_data ::
  "(string, int) dict \<Rightarrow> 'a option TTLCache option \<Rightarrow> string \<Rightarrow> string \<Rightarrow>
   'a fetch_outcome \<Rightarrow> int option \<Rightarrow> clock_readings \<Rightarrow>
   'a option \<times> 'a option TTLCache \<times> string option" where
  "get_cached_data cfg st cache_type key fetch_func ttl clks =
     (let c0 = (case st of None \<Rightarrow> snd (initialize_ttl_cache None (init_clock clks))
                         | Some c \<Rightarrow> c);
          cache_key = cache_type @ '':'' @ key;
          (cached_data, c1) = TTLCache_get c0 cache_key None (check_time clks) (hit_time clks)
      in case cached_data of
           Some d \<Rightarrow> (Some d, c1, None)
         | None \<Rightarrow>
            (case fetch_func of
               Raises msg \<Rightarrow>
                 (None, c1, Some (''Error fetching '' @ cache_type @ '' data: '' @ msg))
             | Returns None \<Rightarrow> (None, c1, None)
             | Returns (Some fresh) \<Rightarrow>
                 (let ttl' = (case ttl of
                                None \<Rightarrow> (case map_of cfg cache_type of
                                            None \<Rightarrow> 3600 | Some t \<Rightarrow> t)
                              | Some t \<Rightarrow> t)
                  in (Some fresh,
                      TTLCache_set c1 cache_key (Some fresh) (Some ttl')
                        (created_time clks) (stored_time clks),
                      None))))"


text \<open>What every operation preserves, for a capacity of at least one.\<close>

definition cache_inv :: "'v TTLCache \<Rightarrow> bool" where
  "cache_inv c \<longleftrightarrow> same_keys c \<and> 1 \<le> max_size c \<and> int (length (cache c)) \<le> max_size c"

text \<open>A run on a cache of capacity two, used as a concrete instance below.\<close>

definition example_ops :: "nat cache_op list" where
  "example_ops =
     [Set ''a'' 1 None 0 0, Set ''b'' 2 (Some 5) 1 1, Get ''a'' 0 2 2,
      Set ''c'' 3 None 3 3, ClearExpired (\<lambda>i. 10), Delete ''a'']"

text \<open>A cache holding one entry, created at time 0 with a TTL of ten seconds.\<close>

definition one_entry :: "nat TTLCache" where
  "one_entry = TTLCache_set (TTLCache_init 3600 2) ''k'' 7 (Some 10) 0 0"

text \<open>A cache of capacity two that is full: \<open>a\<close> was read after \<open>b\<close> was stored.\<close>

definition full_cache :: "nat TTLCache" where
  "full_cache = run_ops (TTLCache_init 3600 2) (take 3 example_ops)"

text \<open>
  The cache a call of \<^verbatim>\<open>get_cached_data\<close> works on: the session's, or a fresh one when the
  session has none.
\<close>

definition session_cache :: "'a option TTLCache option \<Rightarrow> 'a option TTLCache" where
  "session_cache st = (case st of None \<Rightarrow> TTLCache_init 3600 1000 | Some c \<Rightarrow> c)"

text \<open>
  A session whose only entry was stored at time 0 with a TTL of ten seconds, and a clock that
  reads 100 throughout.
\<close>

definition stale_session :: "nat option TTLCache" where
  "stale_session = TTLCache_set (TTLCache_init 3600 1000) ''metadata:main'' (Some 1) (Some 10) 0 0"

definition late_clock :: clock_readings where
  "late_clock = \<lparr>init_clock = (\<lambda>i. 100), check_time = 100, hit_time = 100,
                  created_time = 100, stored_time = 100\<rparr>"

section \<open>The repair pass for RETS queries of \<^verbatim>\<open>smart_suggestions.py\<close>\<close>

text \<open>
  Strings are lists of 8-bit characters (code points below 256). \<^verbatim>\<open>\s\<close> in a \<^verbatim>\<open>str\<close>
  pattern and \<^verbatim>\<open>str.strip()\<close> use the same test, \<^verbatim>\<open>str.isspace\<close>: in this range the
  characters 9 to 13, 28 to 32, 133 and 160.
\<close>

definition is_space :: "char \<Rightarrow> bool" where
  "is_space c \<longleftrightarrow>
     c \<in> set [CHR 0x09, CHR 0x0A, CHR 0x0B, CHR 0x0C, CHR 0x0D, CHR 0x1C, CHR 0x1D, CHR 0x1E,
              CHR 0x1F, CHR 0x20, CHR 0x85, CHR 0xA0]"

text \<open>
  The seven patterns of \<^verbatim>\<open>_fix_rets_operators\<close> are sequences of three kinds of items: a
  literal character, a greedy \<^verbatim>\<open>+\<close> over a one-character class, and the same inside a
  capturing group. The classes are \<^verbatim>\<open>[^x]\<close> (every character but \<open>x\<close>, newlines included)
  and \<^verbatim>\<open>\s\<close>.
\<close>

datatype cls = NotChar char | Space

fun in_cls :: "cls \<Rightarrow> char \<Rightarrow> bool" where
  "in_cls (NotChar x) c \<longleftrightarrow> c \<noteq> x"
| "in_cls Space c \<longleftrightarrow> is_space c"

datatype item = Lit char | Plus cls | GroupPlus cls

text \<open>
  Python's \<^verbatim>\<open>re\<close> is a backtracking matcher. A greedy \<^verbatim>\<open>+\<close> first takes the longest run of
  characters of its class, then gives characters back one at a time, down to one, until
  the rest of the pattern matches what follows. \<open>backtrack k s n\<close> tries the continuation
  \<open>k\<close> after \<open>n\<close>, \<open>n - 1\<close>, ..., \<open>1\<close> characters of \<open>s\<close> and returns the first success
  with the number of characters taken. \<open>rmatch p s\<close> matches the pattern at the start of
  \<open>s\<close> and returns the captured groups and the rest of the string.
\<close>

fun backtrack :: "(string \<Rightarrow> 'a option) \<Rightarrow> string \<Rightarrow> nat \<Rightarrow> (nat \<times> 'a) option" where
  "backtrack k s 0 = None"
| "backtrack k s (Suc n) =
     (case k (drop (Suc n) s) of
        Some r \<Rightarrow> Some (Suc n, r)
      | None \<Rightarrow> backtrack k s n)"

primrec rmatch :: "item list \<Rightarrow> string \<Rightarrow> (string list \<times> string) option" where
  "rmatch [] s = Some ([], s)"
| "rmatch (i # p) s =
     (case i of
        Lit c \<Rightarrow> (case s of [] \<Rightarrow> None | x # xs \<Rightarrow> if x = c then rmatch p xs else None)
      | Plus k \<Rightarrow>
          (case backtrack (rmatch p) s (length (takeWhile (in_cls k) s)) of
             None \<Rightarrow> None
           | Some (n, gs, rest) \<Rightarrow> Some (gs, rest))
      | GroupPlus k \<Rightarrow>
          (case backtrack (rmatch p) s (length (takeWhile (in_cls k) s)) of
             None \<Rightarrow> None
           | Some (n, gs, rest) \<Rightarrow> Some (take n s # gs, rest)))"

text \<open>
  \<^verbatim>\<open>re.sub\<close> scans from the left: where the pattern matches, the match is replaced and the
  scan goes on after it; elsewhere the character is copied. The patterns of this module
  start with a literal, so a match is never empty and the test on the lengths always
  succeeds (lemma \<open>rmatch_Lit_shorter\<close> below).
\<close>

fun re_sub :: "item list \<Rightarrow> (string list \<Rightarrow> string) \<Rightarrow> string \<Rightarrow> string" where
  "re_sub p r [] = []"
| "re_sub p r (c # cs) =
     (case rmatch p (c # cs) of
        None \<Rightarrow> c # re_sub p r cs
      | Some (gs, rest) \<Rightarrow>
          if length rest \<le> length cs then r gs @ re_sub p r rest else c # re_sub p r cs)"

text \<open>
  \<^verbatim>\<open>\(([^=]+)OP([^)]+)\)\<close> for an operator \<^verbatim>\<open>OP\<close>, and \<^verbatim>\<open>\)\s+KW\s+\(\<close> for a keyword.
\<close>

definition cmp_pattern :: "string \<Rightarrow> item list" where
  "cmp_pattern opr =
     [Lit CHR ''('', GroupPlus (NotChar CHR ''='')] @ map Lit opr @
     [GroupPlus (NotChar CHR '')''), Lit CHR '')'']"

definition kw_pattern :: "string \<Rightarrow> item list" where
  "kw_pattern kw =
     [Lit CHR '')'', Plus Space] @ map Lit kw @ [Plus Space, Lit CHR ''('']"

text \<open>
  The replacement templates \<^verbatim>\<open>(\1=\2+)\<close>, \<^verbatim>\<open>(\1=-\2)\<close> and \<^verbatim>\<open>(\1!\2)\<close>; the patterns
  they go with have exactly two groups.
\<close>

fun repl_ge :: "string list \<Rightarrow> string" where
  "repl_ge [f, v] = ''('' @ f @ ''='' @ v @ ''+)''"
| "repl_ge gs = []"

fun repl_le :: "string list \<Rightarrow> string" where
  "repl_le [f, v] = ''('' @ f @ ''=-'' @ v @ '')''"
| "repl_le gs = []"

fun repl_ne :: "string list \<Rightarrow> string" where
  "repl_ne [f, v] = ''('' @ f @ ''!'' @ v @ '')''"
| "repl_ne gs = []"

definition fix_rets_operators :: "string \<Rightarrow> string" where
  "fix_rets_operators query =
     (let query = re_sub (cmp_pattern ''>'') repl_ge query;
          query = re_sub (cmp_pattern ''>='') repl_ge query;
          query = re_sub (cmp_pattern ''<'') repl_le query;
          query = re_sub (cmp_pattern ''<='') repl_le query;
          query = re_sub (cmp_pattern ''!='') repl_ne query;
          query = re_sub (kw_pattern ''AND'') (\<lambda>gs. ''),('') query;
          query = re_sub (kw_pattern ''OR'') (\<lambda>gs. '')|('') query
      in query)"

text \<open>
  What it means for a query to be in native syntax already, in terms of its characters
  alone: it has no \<^verbatim>\<open>>\<close> and no \<^verbatim>\<open><\<close>, \<^verbatim>\<open>!=\<close> does not occur in it, and nowhere does
  a closing parenthesis, some whitespace, the keyword \<^verbatim>\<open>AND\<close> or \<^verbatim>\<open>OR\<close>, some whitespace
  and an opening parenthesis follow one another. \<open>contains sub s\<close> is Python's
  \<^verbatim>\<open>sub in s\<close>.
\<close>

definition starts_with :: "string \<Rightarrow> string \<Rightarrow> bool" where
  "starts_with sub s \<longleftrightarrow> take (length sub) s = sub"

fun contains :: "string \<Rightarrow> string \<Rightarrow> bool" where
  "contains sub [] \<longleftrightarrow> sub = []"
| "contains sub (c # cs) \<longleftrightarrow> starts_with sub (c # cs) \<or> contains sub cs"

definition glue_at :: "string \<Rightarrow> string \<Rightarrow> bool" where
  "glue_at kw s \<longleftrightarrow>
     (case s of
        [] \<Rightarrow> False
      | c # cs \<Rightarrow>
          c = CHR '')'' \<and>
          (let a = dropWhile is_space cs;
               b = dropWhile is_space (drop (length kw) a)
           in a \<noteq> cs \<and> starts_with kw a \<and> b \<noteq> drop (length kw) a \<and> starts_with ''('' b))"

fun keyword_between :: "string \<Rightarrow> string \<Rightarrow> bool" where
  "keyword_between kw [] \<longleftrightarrow> False"
| "keyword_between kw (c # cs) \<longleftrightarrow> glue_at kw (c # cs) \<or> keyword_between kw cs"

definition native_syntax :: "string \<Rightarrow> bool" where
  "native_syntax q \<longleftrightarrow>
     CHR ''>'' \<notin> set q \<and> CHR ''<'' \<notin> set q \<and> \<not> contains ''!='' q \<and>
     \<not> keyword_between ''AND'' q \<and> \<not> keyword_between ''OR'' q"

section \<open>The RETS client of \<^verbatim>\<open>clients/rets_client.py\<close>\<close>

subsection \<open>Strings\<close>

text \<open>
  \<^verbatim>\<open>str.strip()\<close>, \<^verbatim>\<open>str.split(d)\<close> for a delimiter of one character (a string with
  \<open>n\<close> delimiters gives \<open>n + 1\<close> fields, the empty string gives one empty field),
  \<^verbatim>\<open>str(i)\<close> for an integer and \<^verbatim>\<open>str.lower()\<close>.
\<close>

definition py_strip :: "string \<Rightarrow> string" where
  "py_strip s = rev (dropWhile is_space (rev (dropWhile is_space s)))"

fun split_on :: "char \<Rightarrow> string \<Rightarrow> string list" where
  "split_on d [] = [[]]"
| "split_on d (c # cs) =
     (if c = d then [] # split_on d cs
      else (case split_on d cs of
              [] \<Rightarrow> [[c]]
            | w # ws \<Rightarrow> (c # w) # ws))"

definition digit_char :: "nat \<Rightarrow> char" where
  "digit_char n = char_of (48 + n)"

fun nat_digits :: "nat \<Rightarrow> string" where
  "nat_digits n = (if n < 10 then [digit_char n] else nat_digits (n div 10) @ [digit_char (n mod 10)])"

definition py_str_int :: "int \<Rightarrow> string" where
  "py_str_int i = (if i < 0 then CHR ''-'' # nat_digits (nat (- i)) else nat_digits (nat i))"


subsection \<open>Search responses\<close>

text \<open>
  An element of an ElementTree document: its tag, attributes, text and children.
  \<^verbatim>\<open>doc.findall('.//T')\<close> lists the descendants with tag \<open>T\<close> in document order (the
  element itself is not among them) and \<^verbatim>\<open>doc.find('.//T')\<close> is the first of them.
\<close>

datatype xml = Element (tag: string) (attrib: "(string, string) dict") (elem_text: "string option")
  (children: "xml list")

fun descendants :: "xml \<Rightarrow> xml list" where
  "descendants (Element t a x cs) = concat (map (\<lambda>c. c # descendants c) cs)"

definition findall :: "string \<Rightarrow> xml \<Rightarrow> xml list" where
  "findall t doc = filter (\<lambda>e. tag e = t) (descendants doc)"

definition find_first :: "string \<Rightarrow> xml \<Rightarrow> xml option" where
  "find_first t doc = (case findall t doc of [] \<Rightarrow> None | e # es \<Rightarrow> Some e)"

text \<open>
  A result row maps column names to values; an empty cell of a delimited row is
  \<^verbatim>\<open>None\<close>. A text counts in a condition when it is neither \<^verbatim>\<open>None\<close> nor empty.
\<close>

type_synonym row = "(string, string option) dict"

definition nonempty_text :: "string option \<Rightarrow> string option" where
  "nonempty_text x = (case x of None \<Rightarrow> None | Some s \<Rightarrow> if s = [] then None else Some s)"

definition cell :: "string \<Rightarrow> string option" where
  "cell v = (let val = (if v \<noteq> [] then py_strip v else []) in if val \<noteq> [] then Some val else None)"

text \<open>
  The repair of a row with more values than headers: drop the first value when it is
  blank, then cut the row to the number of headers if it is still too long.
\<close>

definition align_values :: "string list \<Rightarrow> string list \<Rightarrow> string list" where
  "align_values headers vals =
     (if length vals > length headers
      then (let vals1 = (case vals of
                           [] \<Rightarrow> vals
                         | v0 # rest \<Rightarrow> if v0 = [] \<or> py_strip v0 = [] then rest else vals)
            in if length vals1 > length headers then take (length headers) vals1 else vals1)
      else vals)"

definition matrix_row :: "char \<Rightarrow> string list \<Rightarrow> string \<Rightarrow> row" where
  "matrix_row delimiter headers data_text =
     (let vals = align_values headers (split_on delimiter data_text)
      in foldl (\<lambda>row_data (j, header).
                  AList.update header (if j < length vals then cell (vals ! j) else None) row_data)
           [] (enumerate 0 headers))"

text \<open>
  The loop over the \<^verbatim>\<open>DATA\<close> elements of a Matrix response. A row read from attributes
  ends the loop once fifty rows are collected; for a row read from text the source tests
  the size only when the result has exactly one row, so that test never ends the loop.
\<close>

fun matrix_rows :: "char \<Rightarrow> string list \<Rightarrow> xml list \<Rightarrow> row list \<Rightarrow> row list" where
  "matrix_rows delimiter headers [] results = results"
| "matrix_rows delimiter headers (data_elem # es) results =
     (case nonempty_text (elem_text data_elem) of
        Some data_text \<Rightarrow>
          matrix_rows delimiter headers es (results @ [matrix_row delimiter headers data_text])
      | None \<Rightarrow>
          if attrib data_elem \<noteq> []
          then (let results' = results @ [map (\<lambda>(k, v). (k, Some v)) (attrib data_elem)]
                in if length results' \<ge> 50 then results'
                   else matrix_rows delimiter headers es results')
          else matrix_rows delimiter headers es results)"


text \<open>
  The delimiter is a tab unless the \<^verbatim>\<open>DELIMITER\<close> element says otherwise. For a code other
  than \<^verbatim>\<open>09\<close> and \<^verbatim>\<open>2C\<close> the source calls \<^verbatim>\<open>chr(int(code))\<close>, a parameter here that is
  \<open>None\<close> where the call raises.
\<close>

definition choose_delimiter :: "(string \<Rightarrow> char option) \<Rightarrow> xml option \<Rightarrow> char option" where
  "choose_delimiter chr_int delimiter_elem =
     (case delimiter_elem of
        None \<Rightarrow> Some (CHR 0x09)
      | Some e \<Rightarrow>
          (case map_of (attrib e) ''value'' of
             None \<Rightarrow> Some (CHR 0x09)
           | Some delim_value \<Rightarrow>
               if delim_value = ''09'' then Some (CHR 0x09)
               else if delim_value = ''2C'' then Some CHR '',''
               else chr_int delim_value))"

text \<open>The scan of the raw response lines, used when no \<^verbatim>\<open>DATA\<close> element gave a row.\<close>

definition raw_row :: "string list \<Rightarrow> string list \<Rightarrow> row" where
  "raw_row headers vals =
     foldl (\<lambda>row_data (j, header).
              if j < length vals
              then AList.update header
                     (let val = py_strip (vals ! j) in if val \<noteq> [] then Some val else None)
                     row_data
              else row_data)
       [] (enumerate 0 headers)"

fun raw_rows :: "char \<Rightarrow> string list \<Rightarrow> string list \<Rightarrow> row list \<Rightarrow> row list" where
  "raw_rows delimiter headers [] results = results"
| "raw_rows delimiter headers (l # ls) results =
     (let line = py_strip l
      in if line = [] then raw_rows delimiter headers ls results
         else if delimiter \<in> set line \<and>
                 int (count_list line delimiter) = int (length headers) - 1 \<and>
                 length (split_on delimiter line) = length headers
         then (let results' = results @ [raw_row headers (split_on delimiter line)]
               in if length results' \<ge> 50 then results'
                  else raw_rows delimiter headers ls results')
         else raw_rows delimiter headers ls results)"

definition py_lower_char :: "char \<Rightarrow> char" where
  "py_lower_char c =
     (let n = (of_char c :: nat)
      in if (65 \<le> n \<and> n \<le> 90) \<or> (192 \<le> n \<and> n \<le> 222 \<and> n \<noteq> 215)
         then char_of (n + 32) else c)"

definition py_lower :: "string \<Rightarrow> string" where
  "py_lower s = map py_lower_char s"

text \<open>\<^verbatim>\<open>d.update(other)\<close>; from the empty dict it is \<^verbatim>\<open>dict(other)\<close>.\<close>

definition dict_update :: "('k, 'v) dict \<Rightarrow> ('k, 'v) dict \<Rightarrow> ('k, 'v) dict" where
  "dict_update d other = foldl (\<lambda>acc (k, v). AList.update k v acc) d other"

text \<open>The standard format: a row per \<^verbatim>\<open>DATA\<close> element, from its attributes and children.\<close>

definition std_row :: "xml \<Rightarrow> (string, string) dict" where
  "std_row data_elem =
     foldl (\<lambda>row_data child.
              case nonempty_text (elem_text child) of
                Some t \<Rightarrow>
                  if py_strip t \<noteq> [] then AList.update (tag child) (py_strip t) row_data
                  else if attrib child \<noteq> [] then dict_update row_data (attrib child)
                  else row_data
              | None \<Rightarrow>
                  if attrib child \<noteq> [] then dict_update row_data (attrib child)
                  else row_data)
       (dict_update [] (attrib data_elem)) (children data_elem)"

definition some_values :: "(string, string) dict \<Rightarrow> row" where
  "some_values d = map (\<lambda>(k, v). (k, Some v)) d"

definition standard_rows :: "xml \<Rightarrow> row list" where
  "standard_rows doc =
     (let data_elements =
            (if findall ''DATA'' doc \<noteq> [] then findall ''DATA'' doc
             else if findall ''RETS-DATA'' doc \<noteq> [] then findall ''RETS-DATA'' doc
             else findall ''data'' doc)
      in if data_elements \<noteq> []
         then map some_values (filter (\<lambda>r. r \<noteq> []) (map std_row data_elements))
         else map (\<lambda>e. some_values (dict_update [] (attrib e)))
                (filter (\<lambda>e. attrib e \<noteq> [] \<and> length (dict_update [] (attrib e)) > 2 \<and>
                              (\<exists>key \<in> set (map fst (dict_update [] (attrib e))).
                                 py_lower key \<in> set [''listingid'', ''mlsnumber'', ''status'',
                                                       ''listprice'']))
                   (doc # descendants doc)))"

text \<open>The fallback for a response that is not XML: delimited text with a header line.\<close>

definition text_rows :: "string \<Rightarrow> row list" where
  "text_rows response_text =
     (case split_on (CHR 0x0A) (py_strip response_text) of
        [] \<Rightarrow> []
      | [l] \<Rightarrow> []
      | first_line # rest \<Rightarrow>
          (let headers = (if length (split_on (CHR 0x09) first_line) = 1
                          then split_on CHR '','' first_line
                          else split_on (CHR 0x09) first_line)
           in map (\<lambda>vals. some_values (dict_update [] (zip headers vals)))
                (filter (\<lambda>vals. length vals = length headers)
                   (map (\<lambda>line. if CHR 0x09 \<in> set line then split_on (CHR 0x09) line
                                else split_on CHR '','' line)
                      (filter (\<lambda>line. py_strip line \<noteq> []) rest)))))"

text \<open>
  \<^verbatim>\<open>_parse_search_response\<close>. \<^verbatim>\<open>ET.fromstring\<close> is a parameter, \<open>None\<close> where it raises
  \<^verbatim>\<open>ParseError\<close>. The result is \<open>None\<close> when an exception other than \<^verbatim>\<open>ParseError\<close>
  leaves the function.
\<close>

definition parse_search_response ::
  "(string \<Rightarrow> xml option) \<Rightarrow> (string \<Rightarrow> char option) \<Rightarrow> string \<Rightarrow> row list option" where
  "parse_search_response xml_parse chr_int response_text =
     (case xml_parse response_text of
        None \<Rightarrow> Some (text_rows response_text)
      | Some doc \<Rightarrow>
          (case (case find_first ''COLUMNS'' doc of
                   None \<Rightarrow> None
                 | Some columns_elem \<Rightarrow> nonempty_text (elem_text columns_elem)) of
             None \<Rightarrow> Some (standard_rows doc)
           | Some columns_text \<Rightarrow>
               (case choose_delimiter chr_int (find_first ''DELIMITER'' doc) of
                  None \<Rightarrow> None
                | Some delimiter \<Rightarrow>
                    (let headers = split_on delimiter (py_strip columns_text);
                         results = matrix_rows delimiter headers (findall ''DATA'' doc) [];
                         results = (if results = []
                                    then raw_rows delimiter headers
                                           (split_on (CHR 0x0A) response_text) []
                                    else results)
                     in if results \<noteq> [] then Some results else Some (standard_rows doc)))))"

text \<open>
  The sample of the Matrix format: the header \<^verbatim>\<open>A\tB\tC\<close>, a data row with a leading
  empty field, \<^verbatim>\<open>\tv1\tv2\tv3\<close>, and a document that holds them.
\<close>

definition TAB :: char where "TAB = CHR 0x09"

definition columns_ABC :: string where
  "columns_ABC = ''A'' @ [TAB] @ ''B'' @ [TAB] @ ''C''"

definition data_v123 :: string where
  "data_v123 = [TAB] @ ''v1'' @ [TAB] @ ''v2'' @ [TAB] @ ''v3''"

definition matrix_doc :: xml where
  "matrix_doc =
     Element ''RETS'' [(''ReplyCode'', ''0'')] None
       [Element ''DELIMITER'' [(''value'', ''09'')] None [],
        Element ''COLUMNS'' [] (Some columns_ABC) [],
        Element ''DATA'' [] (Some data_v123) []]"

subsection \<open>HTTP\<close>

text \<open>
  What a request can come to: \<^verbatim>\<open>requests\<close> raises a \<^verbatim>\<open>RequestException\<close> (a timeout, a
  refused connection), something else is raised, or a response arrives. A response has a
  status, a text, a content type and, where its body is JSON, the value \<^verbatim>\<open>response.json()\<close>
  returns (\<open>None\<close> where that call raises).
\<close>

datatype json = JNull | JBool bool | JNum real | JStr string | JArr "json list"
  | JObj "(string \<times> json) list"

record response =
  status_code :: nat
  resp_text :: string
  content_type :: string
  json_body :: "json option"

datatype http_outcome = RequestException string | OtherException string | Response response

text \<open>
  The fields of a \<^verbatim>\<open>RETSClient\<close>, with the prefix \<open>rets_\<close> since both client classes have
  a \<^verbatim>\<open>username\<close>, a \<^verbatim>\<open>password\<close> and a \<^verbatim>\<open>connected\<close> flag. \<open>rets_session\<close> says whether
  \<^verbatim>\<open>self.session\<close> is set; the headers and credentials the session carries matter to the
  server only, whose answers are inputs of the model.
\<close>

record RETSClient =
  rets_url :: string
  rets_username :: string
  rets_password :: string
  rets_user_agent :: string
  rets_user_agent_password :: string
  rets_version :: string
  rets_session :: bool
  rets_login_url :: "string option"
  rets_metadata_url :: "string option"
  rets_search_url :: "string option"
  rets_connected :: bool

subsection \<open>Queries\<close>

text \<open>
  \<^verbatim>\<open>execute_query\<close> builds the parameters of the search and sends one request. The network is
  a parameter: the outcome of a GET of a URL with parameters. The result is the value
  returned and the requests sent, in order.
\<close>

type_synonym params = "(string, string) dict"

definition search_params :: "string \<Rightarrow> string \<Rightarrow> string \<Rightarrow> int \<Rightarrow> string \<Rightarrow> params" where
  "search_params resource class_name query limit select =
     (let params =
            [(''SearchType'', resource),
             (''Class'', class_name),
             (''Query'', if query \<noteq> [] \<and> py_strip query \<noteq> [] then py_strip query
                         else ''(ListingId=*)''),
             (''QueryType'', ''DMQL2''),
             (''Count'', ''1''),
             (''Format'', ''COMPACT-DECODED''),
             (''Limit'', py_str_int limit)]
      in if select \<noteq> [] then AList.update ''Select'' select params else params)"

definition execute_query ::
  "(string option \<Rightarrow> params \<Rightarrow> http_outcome) \<Rightarrow> (string \<Rightarrow> xml option) \<Rightarrow>
   (string \<Rightarrow> char option) \<Rightarrow> RETSClient \<Rightarrow> string \<Rightarrow> string \<Rightarrow> string \<Rightarrow> int \<Rightarrow> string \<Rightarrow>
   row list option \<times> (string option \<times> params) list" where
  "execute_query net xml_parse chr_int c resource class_name query limit select =
     (if \<not> rets_connected c \<or> \<not> rets_session c then (None, [])
      else (let params = search_params resource class_name query limit select;
                sent = [(rets_search_url c, params)]
            in case net (rets_search_url c) params of
                 Response r \<Rightarrow>
                   if status_code r = 200
                   then (parse_search_response xml_parse chr_int (resp_text r), sent)
                   else (None, sent)
               | RequestException e \<Rightarrow> (None, sent)
               | OtherException e \<Rightarrow> (None, sent)))"

text \<open>A connected client, a network on which every request times out, and a blank query.\<close>

definition live_client :: RETSClient where
  "live_client = \<lparr>rets_url = ''https://rets.example.com'', rets_username = ''agent'',
     rets_password = ''secret'', rets_user_agent = ''RETS-Dashboard/1.0'',
     rets_user_agent_password = [], rets_version = ''1.7.2'', rets_session = True,
     rets_login_url = None,
     rets_metadata_url = Some ''https://rets.example.com/metadata'',
     rets_search_url = Some ''https://rets.example.com/search'', rets_connected = True\<rparr>"

definition refusing_net :: "string option \<Rightarrow> params \<Rightarrow> http_outcome" where
  "refusing_net u p = RequestException ''timed out''"

definition blank_query :: string where
  "blank_query = [CHR 0x20, CHR 0x09]"

subsection \<open>Connecting\<close>

text \<open>
  \<^verbatim>\<open>RETSClient.connect\<close>. The network is a parameter: the outcome of the \<open>n\<close>-th request
  of the call, made with an authentication scheme to a URL. \<^verbatim>\<open>_parse_login_response\<close>,
  which reads the login response with ElementTree and sets the service URLs, is a
  parameter too: it returns the client as it leaves it, to the left when it raises.

  A loop of the source ends in one of three ways: the method returns (\<open>Done\<close>), an
  exception leaves the loop for the handler around the whole body (\<open>Escaped\<close>), or the
  loop is over and the next statement runs (\<open>Next\<close>, with the number of requests made
  so far). Only a \<^verbatim>\<open>RequestException\<close> is handled inside the loops.
\<close>

definition ends_with :: "string \<Rightarrow> string \<Rightarrow> bool" where
  "ends_with suffix s \<longleftrightarrow> starts_with (rev suffix) (rev s)"

datatype auth_method = Basic | Digest

type_synonym rets_net = "nat \<Rightarrow> auth_method \<Rightarrow> string \<Rightarrow> http_outcome"

datatype connect_flow = Done bool RETSClient | Escaped RETSClient | Next nat

definition login_endpoints :: "string list" where
  "login_endpoints =
     [''/login'', ''/Login'', ''/RETS/Login'', ''/rets/login'', ''/Login.ashx'', ''/login.ashx'']"

definition login_ok ::
  "(RETSClient \<Rightarrow> string \<Rightarrow> RETSClient + RETSClient) \<Rightarrow> RETSClient \<Rightarrow> response \<Rightarrow> connect_flow" where
  "login_ok parse_login_response c r =
     (case parse_login_response c (resp_text r) of
        Inl c' \<Rightarrow> Escaped c'
      | Inr c' \<Rightarrow> Done True (c'\<lparr>rets_connected := True\<rparr>))"

definition matrix_probe ::
  "rets_net \<Rightarrow> (RETSClient \<Rightarrow> string \<Rightarrow> RETSClient + RETSClient) \<Rightarrow> auth_method \<Rightarrow>
   RETSClient \<Rightarrow> nat \<Rightarrow> connect_flow" where
  "matrix_probe net parse_login_response auth c n =
     (if contains ''matrix'' (py_lower (rets_url c))
      then (case net n auth (rets_url c) of
              Response r \<Rightarrow>
                if status_code r = 200 then login_ok parse_login_response c r else Next (Suc n)
            | RequestException e \<Rightarrow> Next (Suc n)
            | OtherException e \<Rightarrow> Escaped c)
      else Next n)"

fun try_endpoints ::
  "rets_net \<Rightarrow> (RETSClient \<Rightarrow> string \<Rightarrow> RETSClient + RETSClient) \<Rightarrow> auth_method \<Rightarrow>
   RETSClient \<Rightarrow> nat \<Rightarrow> string list \<Rightarrow> connect_flow" where
  "try_endpoints net parse_login_response auth c n [] = Next n"
| "try_endpoints net parse_login_response auth c n (endpoint # rest) =
     (if ends_with ''.ashx'' (rets_url c) \<and> endpoint \<noteq> login_endpoints ! 0 then Next n
      else (case net n auth (if ends_with ''.ashx'' (rets_url c) then rets_url c
                             else rets_url c @ endpoint) of
              Response r \<Rightarrow>
                if status_code r = 200 then login_ok parse_login_response c r
                else if ends_with ''.ashx'' (rets_url c) then Next (Suc n)
                else try_endpoints net parse_login_response auth c (Suc n) rest
            | RequestException e \<Rightarrow>
                if ends_with ''.ashx'' (rets_url c) then Next (Suc n)
                else try_endpoints net parse_login_response auth c (Suc n) rest
            | OtherException e \<Rightarrow> Escaped c))"

fun try_auth_methods ::
  "rets_net \<Rightarrow> (RETSClient \<Rightarrow> string \<Rightarrow> RETSClient + RETSClient) \<Rightarrow> RETSClient \<Rightarrow> nat \<Rightarrow>
   auth_method list \<Rightarrow> connect_flow" where
  "try_auth_methods net parse_login_response c n [] = Done False c"
| "try_auth_methods net parse_login_response c n (auth # rest) =
     (case matrix_probe net parse_login_response auth c n of
        Next n1 \<Rightarrow>
          (case try_endpoints net parse_login_response auth c n1 login_endpoints of
             Next n2 \<Rightarrow> try_auth_methods net parse_login_response c n2 rest
           | Done b c' \<Rightarrow> Done b c'
           | Escaped c' \<Rightarrow> Escaped c')
      | Done b c' \<Rightarrow> Done b c'
      | Escaped c' \<Rightarrow> Escaped c')"

text \<open>
  The handler around the body turns every escaped exception into the result \<^verbatim>\<open>False\<close>.
\<close>

definition RETS_connect ::
  "rets_net \<Rightarrow> (RETSClient \<Rightarrow> string \<Rightarrow> RETSClient + RETSClient) \<Rightarrow> RETSClient \<Rightarrow>
   bool \<times> RETSClient" where
  "RETS_connect net parse_login_response c =
     (case try_auth_methods net parse_login_response (c\<lparr>rets_session := True\<rparr>) 0
             [Basic, Digest] of
        Done b c' \<Rightarrow> (b, c')
      | Escaped c' \<Rightarrow> (False, c')
      | Next n \<Rightarrow> (False, c\<lparr>rets_session := True\<rparr>))"

text \<open>A request is accepted when a response with status 200 arrives.\<close>

definition accepted :: "http_outcome \<Rightarrow> bool" where
  "accepted outcome \<longleftrightarrow> (case outcome of Response r \<Rightarrow> status_code r = 200 | _ \<Rightarrow> False)"

text \<open>
  \<^verbatim>\<open>RESOWebAPIClient\<close>. The access token is a Python value: the string given to the
  constructor, the value under \<^verbatim>\<open>access_token\<close> in the token response, or \<^verbatim>\<open>None\<close>.
  The network gives the outcome of a request: the GET of a URL or the POST of the
  password-grant form to the token URL.
\<close>

record RESOClient =
  reso_base_url :: string
  reso_token_url :: string
  reso_client_id :: string
  reso_client_secret :: string
  reso_username :: string
  reso_password :: string
  reso_scope :: string
  reso_access_token :: json
  reso_connected :: bool
  reso_auth_method :: string

fun truthy :: "json \<Rightarrow> bool" where
  "truthy JNull \<longleftrightarrow> False"
| "truthy (JBool b) \<longleftrightarrow> b"
| "truthy (JNum x) \<longleftrightarrow> x \<noteq> 0"
| "truthy (JStr s) \<longleftrightarrow> s \<noteq> []"
| "truthy (JArr xs) \<longleftrightarrow> xs \<noteq> []"
| "truthy (JObj kvs) \<longleftrightarrow> kvs \<noteq> []"

fun sliceable :: "json \<Rightarrow> bool" where
  "sliceable (JStr s) \<longleftrightarrow> True"
| "sliceable (JArr xs) \<longleftrightarrow> True"
| "sliceable j \<longleftrightarrow> False"

datatype reso_request =
    ApiGet string
  | TokenPost string "(string, string) dict"

definition rstrip_char :: "char \<Rightarrow> string \<Rightarrow> string" where
  "rstrip_char x s = rev (dropWhile (\<lambda>c. c = x) (rev s))"

definition lstrip_char :: "char \<Rightarrow> string \<Rightarrow> string" where
  "lstrip_char x s = dropWhile (\<lambda>c. c = x) s"

text \<open>
  \<^verbatim>\<open>_make_api_request\<close>. Before its \<^verbatim>\<open>try\<close> it prints slices of the token, which raises
  for a token that is neither a string nor a list (left result). Inside, every exception
  and every status but 200 give \<^verbatim>\<open>None\<close> (\<open>JNull\<close>).
\<close>

definition make_api_request ::
  "(reso_request \<Rightarrow> http_outcome) \<Rightarrow> RESOClient \<Rightarrow> string \<Rightarrow> unit + json" where
  "make_api_request net c endpoint =
     (if \<not> truthy (reso_access_token c) then Inr JNull
      else if \<not> sliceable (reso_access_token c) then Inl ()
      else (let base_clean = rstrip_char CHR ''/'' (reso_base_url c);
                endpoint_clean = lstrip_char CHR ''/'' endpoint;
                url = (if endpoint_clean \<noteq> [] then base_clean @ ''/'' @ endpoint_clean
                       else base_clean)
            in case net (ApiGet url) of
                 Response r \<Rightarrow>
                   if status_code r = 200
                   then (if contains ''application/json'' (content_type r)
                         then (case json_body r of None \<Rightarrow> Inr JNull | Some j \<Rightarrow> Inr j)
                         else Inr (JObj [(''content'', JStr (resp_text r))]))
                   else Inr JNull
               | RequestException e \<Rightarrow> Inr JNull
               | OtherException e \<Rightarrow> Inr JNull))"

text \<open>
  \<^verbatim>\<open>RESOWebAPIClient.connect\<close>; every exception in its body gives \<^verbatim>\<open>False\<close>. A JSON body
  that is not an object has no \<^verbatim>\<open>get\<close>, which raises.
\<close>

definition RESO_connect ::
  "(reso_request \<Rightarrow> http_outcome) \<Rightarrow> RESOClient \<Rightarrow> bool \<times> RESOClient" where
  "RESO_connect net c =
     (if reso_auth_method c = ''token'' \<and> truthy (reso_access_token c)
      then (case make_api_request net c [] of
              Inl u \<Rightarrow> (False, c)
            | Inr test_response \<Rightarrow>
                if test_response \<noteq> JNull then (True, c\<lparr>reso_connected := True\<rparr>)
                else (False, c))
      else if reso_token_url c = [] \<or> reso_client_id c = [] then (False, c)
      else (case net (TokenPost (reso_token_url c)
                        [(''grant_type'', ''password''),
                         (''client_id'', reso_client_id c),
                         (''client_secret'', reso_client_secret c),
                         (''username'', reso_username c),
                         (''password'', reso_password c),
                         (''scope'', reso_scope c)]) of
              Response r \<Rightarrow>
                if status_code r = 200
                then (case json_body r of
                        Some (JObj token_data) \<Rightarrow>
                          (let token = (case map_of token_data ''access_token'' of
                                          None \<Rightarrow> JNull | Some t \<Rightarrow> t)
                           in if truthy token
                              then (True, c\<lparr>reso_access_token := token, reso_connected := True\<rparr>)
                              else (False, c\<lparr>reso_access_token := token\<rparr>))
                      | _ \<Rightarrow> (False, c))
                else (False, c)
            | RequestException e \<Rightarrow> (False, c)
            | OtherException e \<Rightarrow> (False, c)))"

text \<open>A 401 response, a client that never connected and a client with a direct token.\<close>

definition unauthorized :: response where
  "unauthorized = \<lparr>status_code = 401, resp_text = ''Unauthorized'', content_type = ''text/plain'',
                    json_body = None\<rparr>"

definition new_rets_client :: RETSClient where
  "new_rets_client = \<lparr>rets_url = ''https://rets.example.com'', rets_username = ''agent'',
     rets_password = ''wrong'', rets_user_agent = ''RETS-Dashboard/1.0'',
     rets_user_agent_password = [], rets_version = ''1.7.2'', rets_session = False,
     rets_login_url = None, rets_metadata_url = None, rets_search_url = None,
     rets_connected = False\<rparr>"

definition token_client :: RESOClient where
  "token_client = \<lparr>reso_base_url = ''https://api.example.com/reso/odata'', reso_token_url = [],
     reso_client_id = [], reso_client_secret = [], reso_username = [], reso_password = [],
     reso_scope = ''odata_api'', reso_access_token = JStr ''expired-token'',
     reso_connected = False, reso_auth_method = ''token''\<rparr>"

subsection \<open>Metadata\<close>

text \<open>
  The dict \<^verbatim>\<open>_parse_metadata_response\<close> returns, with its four keys as fields. A value
  under \<^verbatim>\<open>system\<close> is a text or the attributes of a child element.
\<close>

datatype sys_value = SText string | SAttrs "(string, string) dict"

record metadata =
  md_system :: "(string, sys_value) dict"
  md_resources :: "(string, string) dict list"
  md_classes :: "(string, string) dict list"
  md_fields :: "(string, string) dict list"

text \<open>
  The walk over all elements of the document, the root first. An element with attributes
  gives them as its entry; one without gives what its children carry, if anything.
\<close>

definition child_info :: "xml \<Rightarrow> (string, string) dict" where
  "child_info elem =
     foldl (\<lambda>info child.
              if attrib child \<noteq> [] then dict_update info (attrib child)
              else (case nonempty_text (elem_text child) of
                      Some t \<Rightarrow> AList.update (tag child) t info
                    | None \<Rightarrow> info))
       [] (children elem)"

definition entry_of :: "xml \<Rightarrow> (string, string) dict option" where
  "entry_of elem =
     (if attrib elem \<noteq> [] then Some (dict_update [] (attrib elem))
      else if child_info elem \<noteq> [] then Some (child_info elem)
      else None)"

definition system_info :: "(string, sys_value) dict \<Rightarrow> xml \<Rightarrow> (string, sys_value) dict" where
  "system_info sys elem =
     foldl (\<lambda>sys child.
              if attrib child \<noteq> [] then AList.update (tag child) (SAttrs (attrib child)) sys
              else (case nonempty_text (elem_text child) of
                      Some t \<Rightarrow> AList.update (tag child) (SText t) sys
                    | None \<Rightarrow> sys))
       (foldl (\<lambda>sys (k, v). AList.update k (SText v) sys) sys (attrib elem))
       (children elem)"

definition metadata_step :: "metadata \<Rightarrow> xml \<Rightarrow> metadata" where
  "metadata_step md elem =
     (let tag_lower = py_lower (tag elem)
      in if contains ''system'' tag_lower
         then md\<lparr>md_system := system_info (md_system md) elem\<rparr>
         else if contains ''resource'' tag_lower
         then (case entry_of elem of
                 Some e \<Rightarrow> md\<lparr>md_resources := md_resources md @ [e]\<rparr> | None \<Rightarrow> md)
         else if contains ''class'' tag_lower
         then (case entry_of elem of
                 Some e \<Rightarrow> md\<lparr>md_classes := md_classes md @ [e]\<rparr> | None \<Rightarrow> md)
         else if contains ''field'' tag_lower \<or> contains ''table'' tag_lower \<or>
                 contains ''column'' tag_lower
         then (case entry_of elem of
                 Some e \<Rightarrow> md\<lparr>md_fields := md_fields md @ [e]\<rparr> | None \<Rightarrow> md)
         else md)"

text \<open>
  \<^verbatim>\<open>ET.fromstring\<close> is a parameter, \<open>None\<close> where it raises \<^verbatim>\<open>ParseError\<close>; the
  response is then kept as raw text, cut to 500 characters.
\<close>

definition parse_metadata_response :: "(string \<Rightarrow> xml option) \<Rightarrow> string \<Rightarrow> metadata" where
  "parse_metadata_response xml_parse response_text =
     (case xml_parse response_text of
        Some doc \<Rightarrow>
          foldl metadata_step
            \<lparr>md_system = [], md_resources = [], md_classes = [], md_fields = []\<rparr>
            (doc # descendants doc)
      | None \<Rightarrow>
          \<lparr>md_system = [(''raw_response'', SText (take 500 response_text))],
           md_resources = [], md_classes = [], md_fields = []\<rparr>)"

text \<open>
  \<^verbatim>\<open>get_metadata\<close>. The network gives the outcome of the \<open>n\<close>-th request of the call,
  a GET of the metadata URL with parameters. Every request is inside one \<^verbatim>\<open>try\<close>, whose
  handler returns \<^verbatim>\<open>None\<close>: the loops give \<open>None\<close> when a request raises, and the
  dict built so far with the number of requests made otherwise.
\<close>

type_synonym metadata_net = "nat \<Rightarrow> string option \<Rightarrow> params \<Rightarrow> http_outcome"

definition dict_get :: "('k, string) dict \<Rightarrow> 'k \<Rightarrow> string" where
  "dict_get d k = (case map_of d k of None \<Rightarrow> [] | Some v \<Rightarrow> v)"

fun table_loop ::
  "metadata_net \<Rightarrow> (string \<Rightarrow> xml option) \<Rightarrow> RETSClient \<Rightarrow> string \<Rightarrow>
   (string, string) dict list \<Rightarrow> nat \<Rightarrow> (string, metadata) dict \<Rightarrow>
   ((string, metadata) dict \<times> nat) option" where
  "table_loop net xml_parse c resource_name [] n metadata_result = Some (metadata_result, n)"
| "table_loop net xml_parse c resource_name (class_info # rest) n metadata_result =
     (let class_name = dict_get class_info ''ClassName''
      in if class_name = []
         then table_loop net xml_parse c resource_name rest n metadata_result
         else (case net n (rets_metadata_url c)
                      [(''Type'', ''METADATA-TABLE''),
                       (''ID'', resource_name @ '':'' @ class_name)] of
                 Response r \<Rightarrow>
                   table_loop net xml_parse c resource_name rest (Suc n)
                     (if status_code r = 200
                      then AList.update (''TABLE_'' @ resource_name @ ''_'' @ class_name)
                             (parse_metadata_response xml_parse (resp_text r)) metadata_result
                      else metadata_result)
               | RequestException e \<Rightarrow> None
               | OtherException e \<Rightarrow> None))"

fun class_loop ::
  "metadata_net \<Rightarrow> (string \<Rightarrow> xml option) \<Rightarrow> RETSClient \<Rightarrow>
   (string, string) dict list \<Rightarrow> nat \<Rightarrow> (string, metadata) dict \<Rightarrow>
   ((string, metadata) dict \<times> nat) option" where
  "class_loop net xml_parse c [] n metadata_result = Some (metadata_result, n)"
| "class_loop net xml_parse c (resource # rest) n metadata_result =
     (let resource_name = dict_get resource ''ResourceID''
      in if resource_name = []
         then class_loop net xml_parse c rest n metadata_result
         else (case net n (rets_metadata_url c)
                      [(''Type'', ''METADATA-CLASS''), (''ID'', resource_name)] of
                 Response r \<Rightarrow>
                   if status_code r = 200
                   then (let class_metadata = parse_metadata_response xml_parse (resp_text r)
                         in case table_loop net xml_parse c resource_name
                                   (md_classes class_metadata) (Suc n)
                                   (AList.update (''CLASS_'' @ resource_name) class_metadata
                                      metadata_result) of
                              None \<Rightarrow> None
                            | Some (metadata_result', n') \<Rightarrow>
                                class_loop net xml_parse c rest n' metadata_result')
                   else class_loop net xml_parse c rest (Suc n) metadata_result
               | RequestException e \<Rightarrow> None
               | OtherException e \<Rightarrow> None))"

definition get_metadata ::
  "metadata_net \<Rightarrow> (string \<Rightarrow> xml option) \<Rightarrow> RETSClient \<Rightarrow> (string, metadata) dict option" where
  "get_metadata net xml_parse c =
     (if \<not> rets_connected c \<or> \<not> rets_session c then None
      else (case net 0 (rets_metadata_url c) [(''Type'', ''METADATA-SYSTEM''), (''ID'', ''*'')] of
              Response r \<Rightarrow>
                if status_code r = 200
                then (let metadata_result =
                            [(''SYSTEM'', parse_metadata_response xml_parse (resp_text r))]
                      in case net 1 (rets_metadata_url c)
                                [(''Type'', ''METADATA-RESOURCE''), (''ID'', ''0'')] of
                           Response r2 \<Rightarrow>
                             if status_code r2 = 200
                             then (let resource_metadata =
                                         parse_metadata_response xml_parse (resp_text r2)
                                   in case class_loop net xml_parse c
                                             (md_resources resource_metadata) 2
                                             (AList.update ''RESOURCE'' resource_metadata
                                                metadata_result) of
                                        None \<Rightarrow> None
                                      | Some (metadata_result', n) \<Rightarrow> Some metadata_result')
                             else Some metadata_result
                         | RequestException e \<Rightarrow> None
                         | OtherException e \<Rightarrow> None)
                else None
            | RequestException e \<Rightarrow> None
            | OtherException e \<Rightarrow> None))"

text \<open>The parameters of the first two requests of the cascade and of a class request.\<close>

definition system_params :: params where
  "system_params = [(''Type'', ''METADATA-SYSTEM''), (''ID'', ''*'')]"

definition resource_params :: params where
  "resource_params = [(''Type'', ''METADATA-RESOURCE''), (''ID'', ''0'')]"

definition class_params :: "string \<Rightarrow> params" where
  "class_params resource_name = [(''Type'', ''METADATA-CLASS''), (''ID'', resource_name)]"

text \<open>
  Sample responses, a server on which the system request is answered and every later
  request times out, and a parser for the sample texts.
\<close>

definition ok_response :: "string \<Rightarrow> response" where
  "ok_response t = \<lparr>status_code = 200, resp_text = t, content_type = ''text/xml'',
                     json_body = None\<rparr>"

definition server_error :: response where
  "server_error = \<lparr>status_code = 500, resp_text = ''Internal Server Error'',
                    content_type = ''text/plain'', json_body = None\<rparr>"

definition timeout_after_system :: metadata_net where
  "timeout_after_system n u p =
     (if n = 0 then Response (ok_response ''<RETS/>'') else RequestException ''timed out'')"

definition sample_xml :: "string \<Rightarrow> xml option" where
  "sample_xml s =
     (if s = ''R''
      then Some (Element ''RETS'' [] None
                   [Element ''Resource'' [(''ResourceID'', ''Property'')] None [],
                    Element ''Resource'' [(''ResourceID'', ''Agent'')] None []])
      else if s = ''C''
      then Some (Element ''RETS'' [] None [Element ''Class'' [(''ClassName'', ''RES'')] None []])
      else None)"


subsection \<open>The cascade as the specification describes it\<close>

text \<open>
  A second description of the cascade, in the words of the specification, to compare
  \<^verbatim>\<open>get_metadata\<close> with. A level succeeds when its request is answered with status 200
  (\<open>answered_ok\<close> is then the text of the response); a request raises when no response
  arrives.
\<close>

definition table_params :: "string \<Rightarrow> string \<Rightarrow> params" where
  "table_params resource_name class_name =
     [(''Type'', ''METADATA-TABLE''), (''ID'', resource_name @ '':'' @ class_name)]"

definition answered_ok :: "http_outcome \<Rightarrow> string option" where
  "answered_ok outcome =
     (case outcome of
        Response r \<Rightarrow> if status_code r = 200 then Some (resp_text r) else None
      | RequestException e \<Rightarrow> None
      | OtherException e \<Rightarrow> None)"

definition raises :: "http_outcome \<Rightarrow> bool" where
  "raises outcome \<longleftrightarrow>
     (case outcome of Response r \<Rightarrow> False | RequestException e \<Rightarrow> True
      | OtherException e \<Rightarrow> True)"

text \<open>
  The resources of a parsed resource response and the classes of a parsed class response
  that have a name, in document order.
\<close>

definition names_under :: "string \<Rightarrow> (string, string) dict list \<Rightarrow> string list" where
  "names_under key ds = filter (\<lambda>name. name \<noteq> []) (map (\<lambda>d. dict_get d key) ds)"

definition resource_names :: "metadata \<Rightarrow> string list" where
  "resource_names m = names_under ''ResourceID'' (md_resources m)"

definition class_names :: "metadata \<Rightarrow> string list" where
  "class_names m = names_under ''ClassName'' (md_classes m)"

text \<open>
  The entries the cascade stores, in order. Requests are numbered as they are sent:
  \<open>0\<close> is the system request, \<open>1\<close> the resource request; each named resource costs
  one class request and, when that succeeds, one table request per named class. A level
  that does not succeed stores nothing and nothing that depends on it is requested.
\<close>

fun stored_tables ::
  "metadata_net \<Rightarrow> (string \<Rightarrow> metadata) \<Rightarrow> string option \<Rightarrow> string \<Rightarrow> string list \<Rightarrow> nat \<Rightarrow>
   (string \<times> metadata) list" where
  "stored_tables net P url rn [] n = []"
| "stored_tables net P url rn (cn # cns) n =
     (case answered_ok (net n url (table_params rn cn)) of
        Some t \<Rightarrow> [(''TABLE_'' @ rn @ ''_'' @ cn, P t)]
      | None \<Rightarrow> []) @
     stored_tables net P url rn cns (Suc n)"

fun stored_classes ::
  "metadata_net \<Rightarrow> (string \<Rightarrow> metadata) \<Rightarrow> string option \<Rightarrow> string list \<Rightarrow> nat \<Rightarrow>
   (string \<times> metadata) list" where
  "stored_classes net P url [] n = []"
| "stored_classes net P url (rn # rns) n =
     (case answered_ok (net n url (class_params rn)) of
        Some t \<Rightarrow>
          (''CLASS_'' @ rn, P t) #
          stored_tables net P url rn (class_names (P t)) (Suc n) @
          stored_classes net P url rns (Suc n + length (class_names (P t)))
      | None \<Rightarrow> stored_classes net P url rns (Suc n))"

definition stored_entries ::
  "metadata_net \<Rightarrow> (string \<Rightarrow> metadata) \<Rightarrow> string option \<Rightarrow> (string \<times> metadata) list" where
  "stored_entries net P url =
     (case answered_ok (net 0 url system_params) of
        None \<Rightarrow> []
      | Some t0 \<Rightarrow>
          (''SYSTEM'', P t0) #
          (case answered_ok (net 1 url resource_params) of
             None \<Rightarrow> []
           | Some t1 \<Rightarrow>
               (''RESOURCE'', P t1) # stored_classes net P url (resource_names (P t1)) 2))"

text \<open>The requests the cascade sends, with their numbers.\<close>

fun table_requests :: "string \<Rightarrow> string list \<Rightarrow> nat \<Rightarrow> (nat \<times> params) list" where
  "table_requests rn [] n = []"
| "table_requests rn (cn # cns) n = (n, table_params rn cn) # table_requests rn cns (Suc n)"

fun class_requests ::
  "metadata_net \<Rightarrow> (string \<Rightarrow> metadata) \<Rightarrow> string option \<Rightarrow> string list \<Rightarrow> nat \<Rightarrow>
   (nat \<times> params) list" where
  "class_requests net P url [] n = []"
| "class_requests net P url (rn # rns) n =
     (n, class_params rn) #
     (case answered_ok (net n url (class_params rn)) of
        Some t \<Rightarrow>
          table_requests rn (class_names (P t)) (Suc n) @
          class_requests net P url rns (Suc n + length (class_names (P t)))
      | None \<Rightarrow> class_requests net P url rns (Suc n))"

definition sent_requests ::
  "metadata_net \<Rightarrow> (string \<Rightarrow> metadata) \<Rightarrow> string option \<Rightarrow> (nat \<times> params) list" where
  "sent_requests net P url =
     (0, system_params) #
     (case answered_ok (net 0 url system_params) of
        None \<Rightarrow> []
      | Some t0 \<Rightarrow>
          (1, resource_params) #
          (case answered_ok (net 1 url resource_params) of
             None \<Rightarrow> []
           | Some t1 \<Rightarrow> class_requests net P url (resource_names (P t1)) 2))"

definition some_raises :: "metadata_net \<Rightarrow> string option \<Rightarrow> (nat \<times> params) list \<Rightarrow> bool" where
  "some_raises net url reqs \<longleftrightarrow> (\<exists>(i, p) \<in> set reqs. raises (net i url p))"

text \<open>
  A server that answers each request by its parameters alone: the system request, the
  resource request (two resources, \<^verbatim>\<open>Property\<close> and \<^verbatim>\<open>Agent\<close>), the class request of
  \<^verbatim>\<open>Property\<close> (one class, \<^verbatim>\<open>RES\<close>) and the table request of \<^verbatim>\<open>Property:RES\<close> with 200,
  every other request with 500.
\<close>

definition sample_server :: "params \<Rightarrow> http_outcome" where
  "sample_server p =
     Response (if p = system_params then ok_response ''S''
               else if p = resource_params then ok_response ''R''
               else if p = class_params ''Property'' then ok_response ''C''
               else if p = table_params ''Property'' ''RES'' then ok_response ''T''
               else server_error)"

definition sample_net :: metadata_net where
  "sample_net n u p = sample_server p"


section \<open>Properties of the TTL cache\<close>

subsection \<open>Association lists and the scan for the oldest access\<close>

lemma min_by_time_in: "min_by_time b xs \<in> set (b # xs)"
  by (induction xs arbitrary: b) auto

lemma min_by_time_le_aux:
  "snd (min_by_time b xs) \<le> snd b \<and> (\<forall>y\<in>set xs. snd (min_by_time b xs) \<le> snd y)"
proof (induction xs arbitrary: b)
  case Nil then show ?case by simp
next
  case (Cons x xs)
  let ?b = "if snd x < snd b then x else b"
  have ih: "snd (min_by_time ?b xs) \<le> snd ?b"
    and ih2: "\<forall>y\<in>set xs. snd (min_by_time ?b xs) \<le> snd y"
    using Cons.IH[of ?b] by blast+
  have "snd ?b \<le> snd b" "snd ?b \<le> snd x" by auto
  with ih ih2 show ?case by (auto intro: order_trans simp del: if_split simp: if_distrib)
qed

lemma min_by_time_le: "y \<in> set (b # xs) \<Longrightarrow> snd (min_by_time b xs) \<le> snd y"
  using min_by_time_le_aux[of b xs] by auto

lemma length_delete_present:
  "distinct (map fst al) \<Longrightarrow> k \<in> fst ` set al \<Longrightarrow> Suc (length (AList.delete k al)) = length al"
proof (induction al)
  case Nil then show ?case by simp
next
  case (Cons p al)
  then show ?case by (cases "fst p = k") (auto simp: AList.delete_id rev_image_eqI)
qed

lemma length_update:
  "length (AList.update k v al) = (if k \<in> fst ` set al then length al else Suc (length al))"
  by (induction al) auto

lemma keys_delete: "fst ` set (AList.delete k al) = fst ` set al - {k}"
  using AList.delete_keys[of k al] by (metis list.set_map set_removeAll)

lemma keys_update: "fst ` set (AList.update k v al) = insert k (fst ` set al)"
  using AList.dom_update[of k v al] by simp

lemma map_of_None_iff: "map_of al k = None \<longleftrightarrow> k \<notin> fst ` set al"
  by (simp add: map_of_eq_None_iff)

subsection \<open>Both dicts keep the same keys\<close>

lemma same_keys_remove: "same_keys c \<Longrightarrow> same_keys (snd (remove_entry c key))"
  unfolding same_keys_def remove_entry_def
  by (simp add: AList.distinct_delete keys_delete map_of_None_iff)

lemma same_keys_evict: "same_keys c \<Longrightarrow> same_keys (evict_lru c)"
  unfolding evict_lru_def by (simp add: same_keys_remove split: list.split)

lemma same_keys_get: "same_keys c \<Longrightarrow> same_keys (snd (TTLCache_get c key d t1 t2))"
proof (cases "map_of (cache c) key")
  case None
  assume "same_keys c"
  with None show ?thesis by (simp add: TTLCache_get_def)
next
  case (Some e)
  assume a: "same_keys c"
  from Some have k: "key \<in> fst ` set (cache c)"
    by (metis map_of_None_iff option.distinct(1))
  show ?thesis
  proof (cases "is_expired e t1")
    case True
    with Some a show ?thesis by (simp add: TTLCache_get_def same_keys_remove)
  next
    case False
    with Some a k show ?thesis
      unfolding TTLCache_get_def same_keys_def
      by (simp add: AList.distinct_update keys_update insert_absorb)
  qed
qed

lemma same_keys_set: "same_keys c \<Longrightarrow> same_keys (TTLCache_set c key v ttl t1 t2)"
proof -
  assume a: "same_keys c"
  define c1 where "c1 = (if int (length (cache c)) \<ge> max_size c then evict_lru c else c)"
  have "same_keys c1" using a by (simp add: c1_def same_keys_evict)
  then show ?thesis
    unfolding TTLCache_set_def Let_def c1_def[symmetric]
    by (simp add: same_keys_def AList.distinct_update keys_update)
qed

subsection \<open>The capacity bound\<close>

lemma max_size_remove [simp]: "max_size (snd (remove_entry c key)) = max_size c"
  by (simp add: remove_entry_def)

lemma max_size_evict [simp]: "max_size (evict_lru c) = max_size c"
  by (simp add: evict_lru_def split: list.split)

lemma length_remove_le: "length (cache (snd (remove_entry c key))) \<le> length (cache c)"
  by (simp add: remove_entry_def AList.length_delete_le)

lemma length_remove_present:
  "distinct (map fst (cache c)) \<Longrightarrow> key \<in> fst ` set (cache c) \<Longrightarrow>
   Suc (length (cache (snd (remove_entry c key)))) = length (cache c)"
  using length_delete_present[of "cache c" key]
  by (simp add: remove_entry_def map_of_None_iff)

lemma evict_lru_shrinks:
  assumes "same_keys c" "cache c \<noteq> []"
  shows "Suc (length (cache (evict_lru c))) = length (cache c)"
proof -
  from assms have "access_times c \<noteq> []"
    by (auto simp: same_keys_def)
  then obtain x xs where ax: "access_times c = x # xs" by (cases "access_times c") auto
  have "fst (min_by_time x xs) \<in> fst ` set (access_times c)"
    using min_by_time_in[of x xs] ax by (metis image_eqI)
  then have "fst (min_by_time x xs) \<in> fst ` set (cache c)"
    using assms(1) by (simp add: same_keys_def)
  then show ?thesis
    using assms(1) ax length_remove_present[of c "fst (min_by_time x xs)"]
    by (simp add: evict_lru_def same_keys_def)
qed

lemma cache_inv_remove: "cache_inv c \<Longrightarrow> cache_inv (snd (remove_entry c key))"
  using length_remove_le[of c key] by (simp add: cache_inv_def same_keys_remove)

lemma cache_inv_get: "cache_inv c \<Longrightarrow> cache_inv (snd (TTLCache_get c key d t1 t2))"
proof -
  assume a: "cache_inv c"
  have "max_size (snd (TTLCache_get c key d t1 t2)) = max_size c"
    by (simp add: TTLCache_get_def split: option.split)
  moreover have "length (cache (snd (TTLCache_get c key d t1 t2))) \<le> length (cache c)"
    using length_remove_le[of c key] by (simp add: TTLCache_get_def split: option.split)
  ultimately show ?thesis using a by (simp add: cache_inv_def same_keys_get)
qed

lemma cache_inv_set: "cache_inv c \<Longrightarrow> cache_inv (TTLCache_set c key v ttl t1 t2)"
proof -
  assume a: "cache_inv c"
  define c1 where "c1 = (if int (length (cache c)) \<ge> max_size c then evict_lru c else c)"
  have m: "max_size c1 = max_size c" by (simp add: c1_def)
  have l: "int (length (cache c1)) < max_size c"
  proof (cases "int (length (cache c)) \<ge> max_size c")
    case True
    with a have "cache c \<noteq> []" by (auto simp: cache_inv_def)
    with a have "Suc (length (cache (evict_lru c))) = length (cache c)"
      by (simp add: evict_lru_shrinks cache_inv_def)
    with a True show ?thesis by (simp add: c1_def cache_inv_def)
  next
    case False
    then show ?thesis by (simp add: c1_def)
  qed
  have "length (AList.update key e (cache c1)) \<le> Suc (length (cache c1))" for e
    by (simp add: length_update)
  with l have "int (length (AList.update key e (cache c1))) \<le> max_size c" for e
    by (smt (verit) of_nat_Suc of_nat_mono)
  moreover have "same_keys (TTLCache_set c key v ttl t1 t2)"
    using a by (simp add: cache_inv_def same_keys_set)
  ultimately show ?thesis
    using a m unfolding cache_inv_def TTLCache_set_def Let_def c1_def[symmetric]
    by simp
qed

lemma cache_inv_clear: "cache_inv c \<Longrightarrow> cache_inv (TTLCache_clear c)"
  by (simp add: cache_inv_def TTLCache_clear_def same_keys_def)

lemma cache_inv_remove_all:
  "cache_inv c \<Longrightarrow> cache_inv (foldl (\<lambda>c' key. snd (remove_entry c' key)) c ks)"
  by (induction ks arbitrary: c) (simp_all add: cache_inv_remove)

lemma cache_inv_apply_op: "cache_inv c \<Longrightarrow> cache_inv (apply_op c op)"
  by (cases op)
     (simp_all add: cache_inv_get cache_inv_set cache_inv_remove cache_inv_clear
        cache_inv_remove_all TTLCache_delete_def TTLCache_clear_expired_def Let_def)

lemma cache_inv_run_ops: "cache_inv c \<Longrightarrow> cache_inv (run_ops c ops)"
  unfolding run_ops_def by (induction ops arbitrary: c) (simp_all add: cache_inv_apply_op)

lemma cache_inv_init: "1 \<le> N \<Longrightarrow> cache_inv (TTLCache_init dttl N)"
  by (simp add: cache_inv_def TTLCache_init_def same_keys_def)


lemma max_size_get: "max_size (snd (TTLCache_get c key d t1 t2)) = max_size c"
  by (simp add: TTLCache_get_def split: option.split)

lemma max_size_set: "max_size (TTLCache_set c key v ttl t1 t2) = max_size c"
  by (simp add: TTLCache_set_def Let_def)

lemma max_size_remove_all:
  "max_size (foldl (\<lambda>c' key. snd (remove_entry c' key)) c ks) = max_size c"
  by (induction ks arbitrary: c) simp_all

lemma max_size_apply_op: "max_size (apply_op c op) = max_size c"
  by (cases op)
     (simp_all add: max_size_get max_size_set max_size_remove_all TTLCache_delete_def
        TTLCache_clear_def TTLCache_clear_expired_def Let_def)

lemma max_size_run_ops: "max_size (run_ops c ops) = max_size c"
  unfolding run_ops_def by (induction ops arbitrary: c) (simp_all add: max_size_apply_op)

text \<open>
  C10. Starting from a fresh cache with \<open>max_size = N \<ge> 1\<close>, after every sequence of
  \<^verbatim>\<open>get\<close>, \<^verbatim>\<open>set\<close>, \<^verbatim>\<open>delete\<close>, \<^verbatim>\<open>clear\<close> and \<^verbatim>\<open>clear_expired\<close> calls the cache
  holds at most \<open>N\<close> entries, and the access-times dict has exactly the keys of the
  entry dict, each of them once.
\<close>

theorem TTLCache_invariants:
  assumes "1 \<le> N"
  shows "int (length (cache (run_ops (TTLCache_init dttl N) ops))) \<le> N \<and>
         fst ` set (access_times (run_ops (TTLCache_init dttl N) ops)) =
           fst ` set (cache (run_ops (TTLCache_init dttl N) ops)) \<and>
         distinct (map fst (cache (run_ops (TTLCache_init dttl N) ops))) \<and>
         distinct (map fst (access_times (run_ops (TTLCache_init dttl N) ops)))"
proof -
  have m: "max_size (run_ops (TTLCache_init dttl N) ops) = N"
    by (simp add: max_size_run_ops TTLCache_init_def)
  from assms have "cache_inv (run_ops (TTLCache_init dttl N) ops)"
    by (simp add: cache_inv_init cache_inv_run_ops)
  with m show ?thesis by (simp add: cache_inv_def same_keys_def)
qed

theorem TTLCache_invariants_witness:
  "(1::int) \<le> 2 \<and>
   int (length (cache (run_ops (TTLCache_init 3600 2) example_ops))) \<le> 2 \<and>
   fst ` set (access_times (run_ops (TTLCache_init 3600 2) example_ops)) =
     fst ` set (cache (run_ops (TTLCache_init 3600 2) example_ops)) \<and>
   distinct (map fst (cache (run_ops (TTLCache_init 3600 2) example_ops))) \<and>
   distinct (map fst (access_times (run_ops (TTLCache_init 3600 2) example_ops)))"
  using TTLCache_invariants [of 2 3600 example_ops] by simp

subsection \<open>Reading back and expiry\<close>

lemma get_after_set:
  assumes "t_check - t_created \<le> real_of_int (case ttl of None \<Rightarrow> default_ttl_seconds c | Some t \<Rightarrow> t)"
  shows "fst (TTLCache_get (TTLCache_set c key v ttl t_created t_acc) key d t_check t_acc') = v"
proof -
  define c1 where "c1 = (if int (length (cache c)) \<ge> max_size c then evict_lru c else c)"
  have d: "default_ttl_seconds c1 = default_ttl_seconds c"
    by (simp add: c1_def evict_lru_def remove_entry_def split: list.split)
  show ?thesis
    using assms unfolding TTLCache_set_def Let_def c1_def[symmetric] TTLCache_get_def
    by (simp add: AList.update_conv' is_expired_def CacheEntry_init_def)
qed

lemma get_expired:
  assumes "distinct (map fst (cache c))" "map_of (cache c) key = Some e" "is_expired e now"
  shows "fst (TTLCache_get c key d now t) = d"
    and "map_of (cache (snd (TTLCache_get c key d now t))) key = None"
    and "map_of (access_times (snd (TTLCache_get c key d now t))) key = None"
    and "Suc (length (cache (snd (TTLCache_get c key d now t)))) = length (cache c)"
proof -
  from assms(2) have k: "key \<in> fst ` set (cache c)"
    by (metis map_of_None_iff option.distinct(1))
  have g: "TTLCache_get c key d now t = (d, snd (remove_entry c key))"
    using assms by (simp add: TTLCache_get_def)
  show "fst (TTLCache_get c key d now t) = d" by (simp add: g)
  show "map_of (cache (snd (TTLCache_get c key d now t))) key = None"
    using assms(2) by (simp add: g remove_entry_def AList.delete_conv')
  show "map_of (access_times (snd (TTLCache_get c key d now t))) key = None"
    using assms(2) by (simp add: g remove_entry_def AList.delete_conv')
  show "Suc (length (cache (snd (TTLCache_get c key d now t)))) = length (cache c)"
    using assms(1) k by (simp add: g length_remove_present)
qed


text \<open>
  C1, as stated, fails for a negative TTL: the entry is already expired when it is
  stored, and a \<^verbatim>\<open>get\<close> at the very same clock reading returns the default.
\<close>

theorem TTLCache_get_after_set_negative_ttl:
  "fst (TTLCache_get (TTLCache_set (TTLCache_init 3600 1000) ''k'' (1::nat) (Some (- 1)) 0 0)
          ''k'' 0 0 0) \<noteq> 1"
  by (simp add: TTLCache_get_def TTLCache_set_def TTLCache_init_def evict_lru_def
        remove_entry_def CacheEntry_init_def is_expired_def)

text \<open>
  C1, amended. A \<^verbatim>\<open>get\<close> of the key just \<^verbatim>\<open>set\<close> returns the value whenever the clock
  read by \<^verbatim>\<open>get\<close> is at most the TTL past the creation time of the entry (so, with no
  time elapsed, for every TTL that is not negative). A \<^verbatim>\<open>get\<close> of a stored entry whose
  age exceeds its TTL returns the default and removes the entry from both dicts, so the
  number of entries drops by one.
\<close>

theorem TTLCache_get_after_set_and_expiry:
  "(t_check - t_created \<le>
      real_of_int (case ttl of None \<Rightarrow> default_ttl_seconds c | Some t \<Rightarrow> t) \<longrightarrow>
    fst (TTLCache_get (TTLCache_set c key v ttl t_created t_acc) key d t_check t_acc') = v) \<and>
   (distinct (map fst (cache c)) \<and> map_of (cache c) key = Some e \<and> is_expired e now \<longrightarrow>
    fst (TTLCache_get c key d now t) = d \<and>
    map_of (cache (snd (TTLCache_get c key d now t))) key = None \<and>
    map_of (access_times (snd (TTLCache_get c key d now t))) key = None \<and>
    Suc (length (cache (snd (TTLCache_get c key d now t)))) = length (cache c))"
proof (rule conjI; rule impI)
  assume "t_check - t_created \<le>
      real_of_int (case ttl of None \<Rightarrow> default_ttl_seconds c | Some t \<Rightarrow> t)"
  then show "fst (TTLCache_get (TTLCache_set c key v ttl t_created t_acc) key d t_check t_acc') = v"
    by (rule get_after_set)
next
  assume "distinct (map fst (cache c)) \<and> map_of (cache c) key = Some e \<and> is_expired e now"
  then show "fst (TTLCache_get c key d now t) = d \<and>
    map_of (cache (snd (TTLCache_get c key d now t))) key = None \<and>
    map_of (access_times (snd (TTLCache_get c key d now t))) key = None \<and>
    Suc (length (cache (snd (TTLCache_get c key d now t)))) = length (cache c)"
    by (simp add: get_expired)
qed

lemma one_entry_eq:
  "one_entry = \<lparr>cache = [(''k'', \<lparr>data = 7, created_at = 0, ttl_seconds = 10\<rparr>)],
     default_ttl_seconds = 3600, max_size = 2, access_times = [(''k'', 0)]\<rparr>"
  by (simp add: one_entry_def TTLCache_set_def TTLCache_init_def CacheEntry_init_def)

theorem TTLCache_get_after_set_and_expiry_witness:
  "((5::real) - 5 \<le> real_of_int (case Some 0 of None \<Rightarrow> default_ttl_seconds one_entry | Some t \<Rightarrow> t) \<and>
    fst (TTLCache_get (TTLCache_set one_entry ''x'' 9 (Some 0) 5 5) ''x'' 0 5 5) = 9) \<and>
   (distinct (map fst (cache one_entry)) \<and>
    map_of (cache one_entry) ''k'' = Some \<lparr>data = 7, created_at = 0, ttl_seconds = 10\<rparr> \<and>
    is_expired \<lparr>data = 7, created_at = 0, ttl_seconds = 10\<rparr> 11 \<and>
    fst (TTLCache_get one_entry ''k'' 0 11 11) = 0 \<and>
    map_of (cache (snd (TTLCache_get one_entry ''k'' 0 11 11))) ''k'' = None \<and>
    map_of (access_times (snd (TTLCache_get one_entry ''k'' 0 11 11))) ''k'' = None \<and>
    Suc (length (cache (snd (TTLCache_get one_entry ''k'' 0 11 11)))) = length (cache one_entry))"
  using TTLCache_get_after_set_and_expiry [where t_check = 5 and t_created = 5
      and ttl = "Some 0" and c = one_entry and key = "''x''" and v = 9 and t_acc = 5 and d = 0
      and t_acc' = 5]
    TTLCache_get_after_set_and_expiry [where c = one_entry and key = "''k''"
      and e = "\<lparr>data = 7, created_at = 0, ttl_seconds = 10\<rparr>" and now = 11 and t = 11
      and d = 0]
  by (simp add: one_entry_eq is_expired_def)


subsection \<open>Eviction\<close>

lemma evict_lru_victim:
  assumes "same_keys c" "cache c \<noteq> []"
  shows "\<exists>victim tv. map_of (access_times c) victim = Some tv \<and>
           (\<forall>k t. map_of (access_times c) k = Some t \<longrightarrow> tv \<le> t) \<and>
           victim \<in> fst ` set (cache c) \<and>
           evict_lru c = snd (remove_entry c victim)"
proof -
  from assms have "access_times c \<noteq> []"
    by (auto simp: same_keys_def)
  then obtain x xs where ax: "access_times c = x # xs" by (cases "access_times c") auto
  define m where "m = min_by_time x xs"
  have mem: "m \<in> set (access_times c)" using min_by_time_in[of x xs] ax by (simp add: m_def)
  have d: "distinct (map fst (access_times c))" using assms(1) by (simp add: same_keys_def)
  have 1: "map_of (access_times c) (fst m) = Some (snd m)"
    using mem d by simp
  have 2: "snd m \<le> t" if "map_of (access_times c) k = Some t" for k t
  proof -
    from that have "(k, t) \<in> set (x # xs)" using ax by (metis map_of_SomeD)
    then show ?thesis using min_by_time_le[of "(k, t)" x xs] by (simp add: m_def)
  qed
  have 3: "fst m \<in> fst ` set (cache c)"
    using mem assms(1) by (metis same_keys_def image_eqI)
  have 4: "evict_lru c = snd (remove_entry c (fst m))"
    by (simp add: evict_lru_def ax m_def)
  from 1 2 3 4 show ?thesis by blast
qed

lemma get_hit_touches:
  assumes "map_of (cache c) key = Some e" "\<not> is_expired e t1"
  shows "TTLCache_get c key d t1 t2 =
           (data e, c\<lparr>access_times := AList.update key t2 (access_times c)\<rparr>)"
  using assms by (simp add: TTLCache_get_def)

text \<open>
  C2. Let a cache hold exactly \<open>max_size = N \<ge> 1\<close> entries (with the same keys in both
  dicts) and let \<open>key\<close> be a new key. Then \<^verbatim>\<open>set\<close> evicts one stored key, whose access
  timestamp is the smallest of all (no stored timestamp is below it), keeps every other
  entry, stores the new entry and leaves the cache at \<open>N\<close> entries; the new key gets
  the clock reading of the insertion as its access timestamp. A successful \<^verbatim>\<open>get\<close>
  returns the data and sets the access timestamp of its key to the clock it reads.
\<close>

theorem TTLCache_set_evicts_least_recently_accessed:
  assumes "same_keys c" and "1 \<le> max_size c" and "int (length (cache c)) = max_size c"
    and "key \<notin> fst ` set (cache c)"
  shows "(\<exists>victim tv.
           victim \<in> fst ` set (cache c) \<and>
           map_of (access_times c) victim = Some tv \<and>
           (\<forall>k t. map_of (access_times c) k = Some t \<longrightarrow> tv \<le> t) \<and>
           map_of (cache (TTLCache_set c key v ttl t1 t2)) =
             (map_of (cache c))(victim := None,
                key \<mapsto> CacheEntry_init v
                  (case ttl of None \<Rightarrow> default_ttl_seconds c | Some t \<Rightarrow> t) t1) \<and>
           length (cache (TTLCache_set c key v ttl t1 t2)) = length (cache c) \<and>
           map_of (access_times (TTLCache_set c key v ttl t1 t2)) =
             (map_of (access_times c))(victim := None, key \<mapsto> t2)) \<and>
         (\<forall>k e d u1 u2. map_of (cache c) k = Some e \<and> \<not> is_expired e u1 \<longrightarrow>
            fst (TTLCache_get c k d u1 u2) = data e \<and>
            map_of (access_times (snd (TTLCache_get c k d u1 u2))) =
              (map_of (access_times c))(k \<mapsto> u2))"
proof -
  from assms(2,3) have ne: "cache c \<noteq> []" by auto
  from evict_lru_victim[OF assms(1) ne] obtain victim tv where
    v1: "map_of (access_times c) victim = Some tv" and
    v2: "\<forall>k t. map_of (access_times c) k = Some t \<longrightarrow> tv \<le> t" and
    v3: "victim \<in> fst ` set (cache c)" and
    v4: "evict_lru c = snd (remove_entry c victim)" by blast
  from v3 have p: "map_of (cache c) victim \<noteq> None" by (simp add: map_of_None_iff)
  have e: "evict_lru c = c\<lparr>cache := AList.delete victim (cache c),
                           access_times := AList.delete victim (access_times c)\<rparr>"
    using p v1 by (simp add: v4 remove_entry_def)
  have s: "TTLCache_set c key v ttl t1 t2 =
      c\<lparr>cache := AList.update key (CacheEntry_init v
                  (case ttl of None \<Rightarrow> default_ttl_seconds c | Some t \<Rightarrow> t) t1)
                  (AList.delete victim (cache c)),
        access_times := AList.update key t2 (AList.delete victim (access_times c))\<rparr>"
    using assms(3) by (simp add: TTLCache_set_def e)
  have k: "key \<notin> fst ` set (AList.delete victim (cache c))"
    using assms(4) by (simp add: keys_delete)
  have d: "distinct (map fst (cache c))" using assms(1) by (simp add: same_keys_def)
  have l: "length (cache (TTLCache_set c key v ttl t1 t2)) = length (cache c)"
    using k length_delete_present[OF d v3] by (simp add: s length_update)
  have m1: "map_of (cache (TTLCache_set c key v ttl t1 t2)) =
             (map_of (cache c))(victim := None,
                key \<mapsto> CacheEntry_init v
                  (case ttl of None \<Rightarrow> default_ttl_seconds c | Some t \<Rightarrow> t) t1)"
    by (simp add: s AList.update_conv' AList.delete_conv')
  have m2: "map_of (access_times (TTLCache_set c key v ttl t1 t2)) =
             (map_of (access_times c))(victim := None, key \<mapsto> t2)"
    by (simp add: s AList.update_conv' AList.delete_conv')
  have g: "\<forall>k e d u1 u2. map_of (cache c) k = Some e \<and> \<not> is_expired e u1 \<longrightarrow>
            fst (TTLCache_get c k d u1 u2) = data e \<and>
            map_of (access_times (snd (TTLCache_get c k d u1 u2))) =
              (map_of (access_times c))(k \<mapsto> u2)"
    by (simp add: get_hit_touches AList.update_conv')
  from v1 v2 v3 l m1 m2 have "\<exists>victim tv.
           victim \<in> fst ` set (cache c) \<and>
           map_of (access_times c) victim = Some tv \<and>
           (\<forall>k t. map_of (access_times c) k = Some t \<longrightarrow> tv \<le> t) \<and>
           map_of (cache (TTLCache_set c key v ttl t1 t2)) =
             (map_of (cache c))(victim := None,
                key \<mapsto> CacheEntry_init v
                  (case ttl of None \<Rightarrow> default_ttl_seconds c | Some t \<Rightarrow> t) t1) \<and>
           length (cache (TTLCache_set c key v ttl t1 t2)) = length (cache c) \<and>
           map_of (access_times (TTLCache_set c key v ttl t1 t2)) =
             (map_of (access_times c))(victim := None, key \<mapsto> t2)" by blast
  with g show ?thesis by blast
qed

lemma full_cache_eq:
  "full_cache = \<lparr>cache = [(''a'', \<lparr>data = 1, created_at = 0, ttl_seconds = 3600\<rparr>),
                            (''b'', \<lparr>data = 2, created_at = 1, ttl_seconds = 5\<rparr>)],
     default_ttl_seconds = 3600, max_size = 2, access_times = [(''a'', 2), (''b'', 1)]\<rparr>"
  by (simp add: full_cache_def example_ops_def run_ops_def TTLCache_set_def TTLCache_get_def
        TTLCache_init_def CacheEntry_init_def is_expired_def)

theorem TTLCache_set_evicts_least_recently_accessed_witness:
  "same_keys full_cache \<and> 1 \<le> max_size full_cache \<and>
   int (length (cache full_cache)) = max_size full_cache \<and>
   ''c'' \<notin> fst ` set (cache full_cache) \<and>
   map_of (cache (TTLCache_set full_cache ''c'' 3 None 3 4)) ''b'' = None \<and>
   map_of (cache (TTLCache_set full_cache ''c'' 3 None 3 4)) ''a'' =
     Some \<lparr>data = 1, created_at = 0, ttl_seconds = 3600\<rparr> \<and>
   (\<exists>victim tv.
           victim \<in> fst ` set (cache full_cache) \<and>
           map_of (access_times full_cache) victim = Some tv \<and>
           (\<forall>k t. map_of (access_times full_cache) k = Some t \<longrightarrow> tv \<le> t) \<and>
           map_of (cache (TTLCache_set full_cache ''c'' 3 None 3 4)) =
             (map_of (cache full_cache))(victim := None,
                ''c'' \<mapsto> CacheEntry_init 3
                  (case None of None \<Rightarrow> default_ttl_seconds full_cache | Some t \<Rightarrow> t) 3) \<and>
           length (cache (TTLCache_set full_cache ''c'' 3 None 3 4)) = length (cache full_cache) \<and>
           map_of (access_times (TTLCache_set full_cache ''c'' 3 None 3 4)) =
             (map_of (access_times full_cache))(victim := None, ''c'' \<mapsto> 4))"
proof -
  have h: "same_keys full_cache" "1 \<le> max_size full_cache"
    "int (length (cache full_cache)) = max_size full_cache"
    "''c'' \<notin> fst ` set (cache full_cache)"
    by (simp_all add: full_cache_eq same_keys_def)
  have e: "map_of (cache (TTLCache_set full_cache ''c'' 3 None 3 4)) ''b'' = None"
    "map_of (cache (TTLCache_set full_cache ''c'' 3 None 3 4)) ''a'' =
     Some \<lparr>data = 1, created_at = 0, ttl_seconds = 3600\<rparr>"
    by (simp_all add: full_cache_eq TTLCache_set_def evict_lru_def remove_entry_def
          CacheEntry_init_def)
  from TTLCache_set_evicts_least_recently_accessed [OF h, of 3 None 3 4] h e
  show ?thesis by blast
qed


section \<open>Properties of the cache-fronted fetch\<close>

lemma clear_expired_fresh:
  "TTLCache_clear_expired (TTLCache_init a b) clk = (0, TTLCache_init a b)"
  by (simp add: TTLCache_clear_expired_def expired_keys_def TTLCache_init_def)

lemma get_cached_data_start:
  "(case st of None \<Rightarrow> snd (initialize_ttl_cache None clk) | Some c \<Rightarrow> c) = session_cache st"
  by (simp add: session_cache_def initialize_ttl_cache_def clear_expired_fresh split: option.split)

lemma get_cached_data_raises:
  assumes "fst (TTLCache_get (session_cache st) (cache_type @ '':'' @ key) None
                  (check_time clks) (hit_time clks)) = None"
  shows "get_cached_data cfg st cache_type key (Raises msg) ttl clks =
           (None,
            snd (TTLCache_get (session_cache st) (cache_type @ '':'' @ key) None
                   (check_time clks) (hit_time clks)),
            Some (''Error fetching '' @ cache_type @ '' data: '' @ msg))"
  using assms unfolding get_cached_data_def get_cached_data_start Let_def
  by (simp add: case_prod_beta)

lemma get_entries_kept:
  "map_of (cache (snd (TTLCache_get c k d t1 t2))) k' = Some e \<Longrightarrow> map_of (cache c) k' = Some e"
  by (auto simp: TTLCache_get_def remove_entry_def AList.delete_conv'
      split: option.splits if_splits)

lemma get_absent: "map_of (cache c) k = None \<Longrightarrow> TTLCache_get c k d t1 t2 = (d, c)"
  by (simp add: TTLCache_get_def)

lemma get_miss_again:
  assumes "fst (TTLCache_get c k None t1 t2) = None"
  shows "fst (TTLCache_get (snd (TTLCache_get c k None t1 t2)) k None t3 t4) = None"
proof (cases "map_of (cache c) k")
  case None
  then show ?thesis by (simp add: get_absent)
next
  case (Some e)
  show ?thesis
  proof (cases "is_expired e t1")
    case True
    with Some have "map_of (cache (snd (TTLCache_get c k None t1 t2))) k = None"
      by (simp add: TTLCache_get_def remove_entry_def AList.delete_conv')
    then show ?thesis by (simp add: get_absent)
  next
    case False
    with Some assms have "data e = None" by (simp add: TTLCache_get_def)
    with Some False show ?thesis by (simp add: TTLCache_get_def)
  qed
qed


lemma stale_session_eq:
  "stale_session =
     \<lparr>cache = [(''metadata:main'', \<lparr>data = Some 1, created_at = 0, ttl_seconds = 10\<rparr>)],
      default_ttl_seconds = 3600, max_size = 1000, access_times = [(''metadata:main'', 0)]\<rparr>"
  by (simp add: stale_session_def TTLCache_set_def TTLCache_init_def CacheEntry_init_def)

lemma stale_lookup:
  "TTLCache_get stale_session ''metadata:main'' None 100 100 =
     (None, \<lparr>cache = [], default_ttl_seconds = 3600, max_size = 1000, access_times = []\<rparr>)"
  by (simp add: stale_session_eq TTLCache_get_def is_expired_def remove_entry_def)

text \<open>
  C9, as stated, fails where the miss is an expired entry: the lookup removes the entry,
  so the cache is not the one the call started with, although the fetch raised.
\<close>

theorem get_cached_data_failed_fetch_changes_cache:
  "fst (TTLCache_get stale_session ''metadata:main'' None 100 100) = None \<and>
   fst (snd (get_cached_data CACHE_TTL_CONFIG (Some stale_session) ''metadata'' ''main''
               (Raises ''timed out'') None late_clock)) \<noteq> stale_session"
proof -
  have "get_cached_data CACHE_TTL_CONFIG (Some stale_session) ''metadata'' ''main''
               (Raises ''timed out'') None late_clock =
        (None, \<lparr>cache = [], default_ttl_seconds = 3600, max_size = 1000, access_times = []\<rparr>,
         Some ''Error fetching metadata data: timed out'')"
    by (simp add: get_cached_data_def late_clock_def stale_lookup)
  then show ?thesis by (simp add: stale_lookup) (simp add: stale_session_eq)
qed

text \<open>
  C9, amended. When the lookup misses and the fetch function raises, the call returns
  \<^verbatim>\<open>None\<close>, hands the error message to \<^verbatim>\<open>st.error\<close>, and leaves the cache exactly as
  the lookup left it: unchanged when the key was not stored, and in every case with no
  entry that was not there before (nothing is stored). Any later \<^verbatim>\<open>get\<close> of the key
  misses again.
\<close>

theorem get_cached_data_failed_fetch:
  assumes "fst (TTLCache_get (session_cache st) (cache_type @ '':'' @ key) None
                  (check_time clks) (hit_time clks)) = None"
  shows "fst (get_cached_data cfg st cache_type key (Raises msg) ttl clks) = None \<and>
         snd (snd (get_cached_data cfg st cache_type key (Raises msg) ttl clks)) =
           Some (''Error fetching '' @ cache_type @ '' data: '' @ msg) \<and>
         fst (snd (get_cached_data cfg st cache_type key (Raises msg) ttl clks)) =
           snd (TTLCache_get (session_cache st) (cache_type @ '':'' @ key) None
                  (check_time clks) (hit_time clks)) \<and>
         (map_of (cache (session_cache st)) (cache_type @ '':'' @ key) = None \<longrightarrow>
            fst (snd (get_cached_data cfg st cache_type key (Raises msg) ttl clks)) =
              session_cache st) \<and>
         (\<forall>k e. map_of (cache (fst (snd (get_cached_data cfg st cache_type key (Raises msg)
                                            ttl clks)))) k = Some e \<longrightarrow>
                map_of (cache (session_cache st)) k = Some e) \<and>
         (\<forall>t3 t4. fst (TTLCache_get
                          (fst (snd (get_cached_data cfg st cache_type key (Raises msg) ttl clks)))
                          (cache_type @ '':'' @ key) None t3 t4) = None)"
proof -
  let ?g = "get_cached_data cfg st cache_type key (Raises msg) ttl clks"
  let ?c = "snd (TTLCache_get (session_cache st) (cache_type @ '':'' @ key) None
                  (check_time clks) (hit_time clks))"
  note r = get_cached_data_raises[OF assms, of cfg msg ttl]
  have a: "fst ?g = None" by (simp only: r fst_conv)
  have b: "snd (snd ?g) = Some (''Error fetching '' @ cache_type @ '' data: '' @ msg)"
    by (simp only: r snd_conv)
  have c: "fst (snd ?g) = ?c" by (simp only: r fst_conv snd_conv)
  have 1: "map_of (cache (session_cache st)) (cache_type @ '':'' @ key) = None \<longrightarrow>
            fst (snd ?g) = session_cache st"
  proof
    assume "map_of (cache (session_cache st)) (cache_type @ '':'' @ key) = None"
    then have "?c = session_cache st" by (simp only: get_absent snd_conv)
    with c show "fst (snd ?g) = session_cache st" by (rule trans)
  qed
  have 2: "\<forall>k e. map_of (cache (fst (snd ?g))) k = Some e \<longrightarrow>
                map_of (cache (session_cache st)) k = Some e"
    unfolding c by (intro allI impI) (rule get_entries_kept)
  have 3: "\<forall>t3 t4. fst (TTLCache_get (fst (snd ?g)) (cache_type @ '':'' @ key) None t3 t4) = None"
    unfolding c by (intro allI) (rule get_miss_again[OF assms])
  show ?thesis by (rule conjI [OF a conjI [OF b conjI [OF c conjI [OF 1 conjI [OF 2 3]]]]])
qed

theorem get_cached_data_failed_fetch_witness:
  "fst (TTLCache_get (session_cache (Some stale_session)) (''metadata'' @ '':'' @ ''main'') None
          (check_time late_clock) (hit_time late_clock)) = None \<and>
   fst (get_cached_data CACHE_TTL_CONFIG (Some stale_session) ''metadata'' ''main''
          (Raises ''timed out'') None late_clock) = None \<and>
   snd (snd (get_cached_data CACHE_TTL_CONFIG (Some stale_session) ''metadata'' ''main''
          (Raises ''timed out'') None late_clock)) =
     Some (''Error fetching '' @ ''metadata'' @ '' data: '' @ ''timed out'') \<and>
   fst (TTLCache_get
          (fst (snd (get_cached_data CACHE_TTL_CONFIG (Some stale_session) ''metadata'' ''main''
                       (Raises ''timed out'') None late_clock)))
          (''metadata'' @ '':'' @ ''main'') None 101 101) = None"
proof -
  have h: "fst (TTLCache_get (session_cache (Some stale_session)) (''metadata'' @ '':'' @ ''main'')
             None (check_time late_clock) (hit_time late_clock)) = None"
    by (simp add: session_cache_def late_clock_def stale_lookup)
  note t = get_cached_data_failed_fetch [OF h, of CACHE_TTL_CONFIG "''timed out''" None]
  from t have a: "fst (get_cached_data CACHE_TTL_CONFIG (Some stale_session) ''metadata'' ''main''
          (Raises ''timed out'') None late_clock) = None" by (rule conjunct1)
  from t have b: "snd (snd (get_cached_data CACHE_TTL_CONFIG (Some stale_session) ''metadata'' ''main''
          (Raises ''timed out'') None late_clock)) =
     Some (''Error fetching '' @ ''metadata'' @ '' data: '' @ ''timed out'')"
    by (rule conjunct1 [OF conjunct2])
  from t have "\<forall>t3 t4. fst (TTLCache_get
          (fst (snd (get_cached_data CACHE_TTL_CONFIG (Some stale_session) ''metadata'' ''main''
                       (Raises ''timed out'') None late_clock)))
          (''metadata'' @ '':'' @ ''main'') None t3 t4) = None"
    by (rule conjunct2 [OF conjunct2 [OF conjunct2 [OF conjunct2 [OF conjunct2]]]])
  then have c: "fst (TTLCache_get
          (fst (snd (get_cached_data CACHE_TTL_CONFIG (Some stale_session) ''metadata'' ''main''
                       (Raises ''timed out'') None late_clock)))
          (''metadata'' @ '':'' @ ''main'') None 101 101) = None"
    by (rule allE) (erule allE)
  show ?thesis
    by (rule conjI [OF h conjI [OF a conjI [OF b c]]])
qed


section \<open>Properties of the repair pass\<close>

subsection \<open>The matcher\<close>

lemma backtrack_SomeD:
  "backtrack k s n = Some (m, r) \<Longrightarrow> 0 < m \<and> m \<le> n \<and> k (drop m s) = Some r"
  by (induction n) (auto split: option.splits)

lemma rmatch_Lit:
  "rmatch (Lit c # p) s = Some x \<longleftrightarrow> (\<exists>xs. s = c # xs \<and> rmatch p xs = Some x)"
  by (cases s) auto

lemma rmatch_Plus:
  assumes "rmatch (Plus k # p) s = Some (gs, rest)"
  shows "\<exists>m. 0 < m \<and> m \<le> length (takeWhile (in_cls k) s) \<and> rmatch p (drop m s) = Some (gs, rest)"
  using assms by (auto split: option.splits dest: backtrack_SomeD)

lemma rmatch_GroupPlus:
  assumes "rmatch (GroupPlus k # p) s = Some (gs, rest)"
  shows "\<exists>m gs'. 0 < m \<and> m \<le> length (takeWhile (in_cls k) s) \<and> gs = take m s # gs' \<and>
           rmatch p (drop m s) = Some (gs', rest)"
  using assms by (auto split: option.splits dest: backtrack_SomeD)

lemma rmatch_rest: "rmatch p s = Some (gs, rest) \<Longrightarrow> \<exists>u. s = u @ rest"
proof (induction p arbitrary: s gs)
  case Nil
  then show ?case by simp
next
  case (Cons i p)
  show ?case
  proof (cases i)
    case (Lit c)
    with Cons.prems obtain xs where "s = c # xs" "rmatch p xs = Some (gs, rest)"
      by (metis rmatch_Lit)
    with Cons.IH[of xs gs] show ?thesis by (metis append_Cons)
  next
    case (Plus k)
    with Cons.prems obtain m where "rmatch p (drop m s) = Some (gs, rest)"
      using rmatch_Plus by blast
    with Cons.IH[of "drop m s" gs] show ?thesis by (metis append_take_drop_id append.assoc)
  next
    case (GroupPlus k)
    with Cons.prems obtain m gs' where "rmatch p (drop m s) = Some (gs', rest)"
      using rmatch_GroupPlus by blast
    with Cons.IH[of "drop m s" gs'] show ?thesis by (metis append_take_drop_id append.assoc)
  qed
qed

lemma rmatch_Lit_shorter:
  assumes "rmatch (Lit c # p) (x # xs) = Some (gs, rest)"
  shows "length rest \<le> length xs"
proof -
  from assms have "rmatch p xs = Some (gs, rest)" by (metis rmatch_Lit list.inject)
  then obtain u where "xs = u @ rest" using rmatch_rest by blast
  then show ?thesis by (metis length_append le_add2)
qed

lemma rmatch_Lit_mem: "rmatch p s = Some x \<Longrightarrow> Lit c \<in> set p \<Longrightarrow> c \<in> set s"
proof (induction p arbitrary: s x)
  case Nil
  then show ?case by simp
next
  case (Cons i p)
  obtain gs rest where x: "x = (gs, rest)" by (cases x)
  show ?case
  proof (cases i)
    case (Lit d)
    with Cons.prems(1) obtain xs where s: "s = d # xs" "rmatch p xs = Some x"
      by (metis rmatch_Lit)
    show ?thesis
    proof (cases "c = d")
      case True then show ?thesis by (simp add: s)
    next
      case False
      with Cons.prems(2) Lit have "Lit c \<in> set p" by simp
      with Cons.IH[OF s(2)] show ?thesis by (simp add: s)
    qed
  next
    case (Plus k)
    with Cons.prems(2) have in_p: "Lit c \<in> set p" by simp
    from Plus Cons.prems(1) x obtain m where "rmatch p (drop m s) = Some (gs, rest)"
      using rmatch_Plus by blast
    from Cons.IH[OF this in_p] show ?thesis by (metis in_set_dropD)
  next
    case (GroupPlus k)
    with Cons.prems(2) have in_p: "Lit c \<in> set p" by simp
    from GroupPlus Cons.prems(1) x obtain m gs' where "rmatch p (drop m s) = Some (gs', rest)"
      using rmatch_GroupPlus by blast
    from Cons.IH[OF this in_p] show ?thesis by (metis in_set_dropD)
  qed
qed

lemma re_sub_no_match: "(\<And>i. rmatch p (drop i s) = None) \<Longrightarrow> re_sub p r s = s"
proof (induction s)
  case Nil
  then show ?case by simp
next
  case (Cons c cs)
  from Cons.prems[of 0] have 0: "rmatch p (c # cs) = None" by simp
  have "rmatch p (drop i cs) = None" for i using Cons.prems[of "Suc i"] by simp
  then have "re_sub p r cs = cs" by (rule Cons.IH)
  with 0 show ?case by simp
qed

lemma re_sub_absent_char:
  assumes "Lit c \<in> set p" "c \<notin> set s"
  shows "re_sub p r s = s"
proof (rule re_sub_no_match)
  fix i
  show "rmatch p (drop i s) = None"
  proof (rule ccontr)
    assume "rmatch p (drop i s) \<noteq> None"
    then obtain x where "rmatch p (drop i s) = Some x" by blast
    from rmatch_Lit_mem[OF this assms(1)] have "c \<in> set s" by (metis in_set_dropD)
    with assms(2) show False by simp
  qed
qed



subsection \<open>Where a pattern can match\<close>

lemma contains_iff: "contains sub s \<longleftrightarrow> (\<exists>a b. s = a @ sub @ b)"
proof (induction s)
  case Nil
  then show ?case by auto
next
  case (Cons c cs)
  have 1: "starts_with sub (c # cs) \<longleftrightarrow> (\<exists>b. c # cs = sub @ b)"
  proof
    assume "starts_with sub (c # cs)"
    then have "c # cs = sub @ drop (length sub) (c # cs)"
      unfolding starts_with_def by (metis append_take_drop_id)
    then show "\<exists>b. c # cs = sub @ b" ..
  next
    assume "\<exists>b. c # cs = sub @ b"
    then obtain b where "c # cs = sub @ b" ..
    then show "starts_with sub (c # cs)" unfolding starts_with_def by simp
  qed
  have "(\<exists>a b. c # cs = a @ sub @ b) \<longleftrightarrow>
        (\<exists>b. c # cs = sub @ b) \<or> (\<exists>a b. cs = a @ sub @ b)"
  proof
    assume "\<exists>a b. c # cs = a @ sub @ b"
    then obtain a b where ab: "c # cs = a @ sub @ b" by blast
    show "(\<exists>b. c # cs = sub @ b) \<or> (\<exists>a b. cs = a @ sub @ b)"
    proof (cases a)
      case Nil
      with ab show ?thesis by auto
    next
      case (Cons a0 a')
      with ab have "cs = a' @ sub @ b" by simp
      then show ?thesis by blast
    qed
  next
    assume "(\<exists>b. c # cs = sub @ b) \<or> (\<exists>a b. cs = a @ sub @ b)"
    then show "\<exists>a b. c # cs = a @ sub @ b"
    proof
      assume "\<exists>b. c # cs = sub @ b"
      then show ?thesis by (metis append_Nil)
    next
      assume "\<exists>a b. cs = a @ sub @ b"
      then show ?thesis by (metis append_Cons)
    qed
  qed
  with 1 Cons.IH show ?case by simp
qed

lemma contains_drop: "contains sub (drop i s) \<Longrightarrow> contains sub s"
  unfolding contains_iff by (metis append_take_drop_id append.assoc)

lemma keyword_between_drop: "glue_at kw (drop i s) \<Longrightarrow> keyword_between kw s"
proof (induction s arbitrary: i)
  case Nil
  then show ?case by (simp add: glue_at_def)
next
  case (Cons c cs)
  show ?case
  proof (cases i)
    case 0
    with Cons.prems show ?thesis by simp
  next
    case (Suc j)
    with Cons.prems have "glue_at kw (drop j cs)" by simp
    then show ?thesis using Cons.IH by simp
  qed
qed


lemma rmatch_two_lits:
  assumes "rmatch (Lit c0 # GroupPlus k # Lit a # Lit b # p) s = Some x"
  shows "\<exists>u v. s = u @ [a, b] @ v"
proof -
  obtain gs rest where x: "x = (gs, rest)" by (cases x)
  from assms x obtain xs where s: "s = c0 # xs"
    and 1: "rmatch (GroupPlus k # Lit a # Lit b # p) xs = Some (gs, rest)"
    by (metis rmatch_Lit)
  from rmatch_GroupPlus[OF 1] obtain m gs' where
    2: "rmatch (Lit a # Lit b # p) (drop m xs) = Some (gs', rest)" by blast
  then obtain ys where ys: "drop m xs = a # ys"
    and 3: "rmatch (Lit b # p) ys = Some (gs', rest)"
    by (metis rmatch_Lit)
  from 3 obtain zs where zs: "ys = b # zs" by (metis rmatch_Lit)
  have "take m xs @ drop m xs = xs" by (rule append_take_drop_id)
  then have "xs = take m xs @ [a, b] @ zs" by (simp add: ys zs)
  then have "s = (c0 # take m xs) @ [a, b] @ zs" by (simp add: s)
  then show ?thesis by blast
qed

lemma cmp_pattern_ne:
  "cmp_pattern ''!='' =
     Lit CHR ''('' # GroupPlus (NotChar CHR ''='') # Lit CHR ''!'' # Lit CHR ''='' #
       [GroupPlus (NotChar CHR '')''), Lit CHR '')'']"
  by (simp add: cmp_pattern_def)

lemma rmatch_ne_contains:
  assumes "rmatch (cmp_pattern ''!='') s = Some x"
  shows "contains ''!='' s"
  using rmatch_two_lits[OF assms[unfolded cmp_pattern_ne]] unfolding contains_iff .



lemma rmatch_Plus_then_Lit:
  assumes "rmatch (Plus k # Lit a # p) s = Some x" and "\<not> in_cls k a"
  shows "dropWhile (in_cls k) s \<noteq> s \<and>
         (\<exists>ys. dropWhile (in_cls k) s = a # ys \<and> rmatch p ys = Some x)"
proof -
  obtain gs rest where x: "x = (gs, rest)" by (cases x)
  let ?n = "length (takeWhile (in_cls k) s)"
  from rmatch_Plus[OF assms(1)[unfolded x]] obtain m where
    m: "0 < m" "m \<le> ?n" and 1: "rmatch (Lit a # p) (drop m s) = Some (gs, rest)" by blast
  from 1 obtain ys where ys: "drop m s = a # ys" and 2: "rmatch p ys = Some (gs, rest)"
    by (metis rmatch_Lit)
  have "m = ?n"
  proof (rule ccontr)
    assume "m \<noteq> ?n"
    with m have lt: "m < ?n" by simp
    then have "in_cls k (takeWhile (in_cls k) s ! m)"
      by (metis nth_mem set_takeWhileD)
    moreover have "takeWhile (in_cls k) s ! m = s ! m" using lt by (rule takeWhile_nth)
    moreover have "m < length s"
      using lt length_takeWhile_le[of "in_cls k" s] by simp
    then have "s ! m = a"
      using ys hd_drop_conv_nth[of m s] by simp
    ultimately show False using assms(2) by simp
  qed
  then have d: "dropWhile (in_cls k) s = a # ys" using ys by (simp add: dropWhile_eq_drop)
  have "length (takeWhile (in_cls k) s) + length (dropWhile (in_cls k) s) = length s"
    by (metis length_append takeWhile_dropWhile_id)
  with m have "length (dropWhile (in_cls k) s) < length s" by simp
  then have "dropWhile (in_cls k) s \<noteq> s" by auto
  with d 2 x show ?thesis by simp
qed




lemma rmatch_lits:
  "rmatch (map Lit kw @ p) s = Some x \<Longrightarrow> \<exists>ys. s = kw @ ys \<and> rmatch p ys = Some x"
proof (induction kw arbitrary: s)
  case Nil
  then show ?case by simp
next
  case (Cons a kw)
  from Cons.prems have "rmatch (Lit a # (map Lit kw @ p)) s = Some x" by simp
  then obtain xs where s: "s = a # xs" and 1: "rmatch (map Lit kw @ p) xs = Some x"
    by (metis rmatch_Lit)
  from Cons.IH[OF 1] obtain ys where "xs = kw @ ys" "rmatch p ys = Some x" by blast
  with s show ?case by simp
qed

lemma rmatch_glue:
  assumes m: "rmatch (Lit c0 # Plus Space # Lit a # (map Lit kw @ [Plus Space, Lit b])) s = Some x"
    and a: "\<not> is_space a" and b: "\<not> is_space b"
    and c0: "c0 = CHR '')''" and b': "b = CHR ''(''"
  shows "glue_at (a # kw) s"
proof -
  from m obtain cs where s: "s = c0 # cs"
    and 1: "rmatch (Plus Space # Lit a # (map Lit kw @ [Plus Space, Lit b])) cs = Some x"
    by (metis rmatch_Lit)
  from a have "\<not> in_cls Space a" by simp
  from rmatch_Plus_then_Lit[OF 1 this] obtain ys where
    d1: "dropWhile is_space cs \<noteq> cs" and d2: "dropWhile is_space cs = a # ys"
    and 2: "rmatch (map Lit kw @ [Plus Space, Lit b]) ys = Some x"
    by (metis in_cls.simps(2) dropWhile_cong)
  from rmatch_lits[OF 2] obtain zs where zs: "ys = kw @ zs"
    and 3: "rmatch [Plus Space, Lit b] zs = Some x" by blast
  from b have "\<not> in_cls Space b" by simp
  from rmatch_Plus_then_Lit[OF 3 this] obtain ws where
    e1: "dropWhile is_space zs \<noteq> zs" and e2: "dropWhile is_space zs = b # ws"
    by (metis in_cls.simps(2) dropWhile_cong)
  have dr: "drop (length (a # kw)) (a # ys) = zs" by (simp add: zs)
  have sw: "starts_with (a # kw) (a # ys)" by (simp add: starts_with_def zs)
  show ?thesis
    unfolding glue_at_def s
    using d1 e1 by (simp add: c0 d2 dr sw e2 b' starts_with_def Let_def zs)
qed

subsection \<open>What the pass does to the operators\<close>

text \<open>
  C5. The pass on one predicate of each kind. \<^verbatim>\<open>>\<close>, \<^verbatim>\<open><\<close> and \<^verbatim>\<open>!=\<close> and the keywords
  are rewritten as the comments of the source say. \<^verbatim>\<open>>=\<close> and \<^verbatim>\<open><=\<close> are not: the
  substitution for \<^verbatim>\<open>>\<close> runs first and matches \<^verbatim>\<open>(Price>=100000)\<close> with \<^verbatim>\<open>=100000\<close> as
  the value, which gives \<^verbatim>\<open>(Price==100000+)\<close> where the source's comment promises
  \<^verbatim>\<open>(Field=Value+)\<close>; likewise \<^verbatim>\<open>(Price<=100000)\<close> becomes \<^verbatim>\<open>(Price=-=100000)\<close>.
  With two predicates of the same operator only the last is rewritten, since the first
  group of the pattern may span parentheses.
\<close>

theorem fix_rets_operators_examples:
  "fix_rets_operators ''(Price>100000)'' = ''(Price=100000+)'' \<and>
   fix_rets_operators ''(Price>=100000)'' = ''(Price==100000+)'' \<and>
   fix_rets_operators ''(Price<100000)'' = ''(Price=-100000)'' \<and>
   fix_rets_operators ''(Price<=100000)'' = ''(Price=-=100000)'' \<and>
   fix_rets_operators ''(Status!=Sold)'' = ''(Status!Sold)'' \<and>
   fix_rets_operators ''(A=1) AND (B=2)'' = ''(A=1),(B=2)'' \<and>
   fix_rets_operators ''(A=1) OR (B=2)'' = ''(A=1)|(B=2)'' \<and>
   fix_rets_operators ''(A>1) AND (B>2)'' = ''(A>1),(B=2+)''"
  by code_simp


subsection \<open>Queries already in native syntax\<close>

text \<open>
  C6, as stated, fails: the pass is not idempotent on every input. The greedy first
  group of the \<^verbatim>\<open>>\<close> pattern runs across the first predicate of \<^verbatim>\<open>(A>1),(B>2)\<close>, so
  one pass rewrites the second predicate only, and a second pass then rewrites the first.
\<close>

theorem fix_rets_operators_not_idempotent:
  "fix_rets_operators (fix_rets_operators ''(A>1),(B>2)'') \<noteq> fix_rets_operators ''(A>1),(B>2)''"
proof -
  have 1: "fix_rets_operators ''(A>1),(B>2)'' = ''(A>1),(B=2+)''" by code_simp
  have 2: "fix_rets_operators ''(A>1),(B=2+)'' = ''(A=1+),(B=2+)''" by code_simp
  show ?thesis by (simp add: 1 2)
qed

lemma kw_pattern_AND:
  "kw_pattern ''AND'' =
     Lit CHR '')'' # Plus Space # Lit CHR ''A'' # (map Lit ''ND'' @ [Plus Space, Lit CHR ''(''])"
  by (simp add: kw_pattern_def)

lemma kw_pattern_OR:
  "kw_pattern ''OR'' =
     Lit CHR '')'' # Plus Space # Lit CHR ''O'' # (map Lit ''R'' @ [Plus Space, Lit CHR ''(''])"
  by (simp add: kw_pattern_def)

lemma not_space: "\<not> is_space CHR ''A''" "\<not> is_space CHR ''O''" "\<not> is_space CHR ''(''"
  by (simp_all add: is_space_def)

lemma re_sub_kw_AND:
  assumes "\<not> keyword_between ''AND'' q"
  shows "re_sub (kw_pattern ''AND'') r q = q"
proof (rule re_sub_no_match)
  fix i
  show "rmatch (kw_pattern ''AND'') (drop i q) = None"
  proof (rule ccontr)
    assume "rmatch (kw_pattern ''AND'') (drop i q) \<noteq> None"
    then obtain x where "rmatch (kw_pattern ''AND'') (drop i q) = Some x" by blast
    then have "glue_at ''AND'' (drop i q)"
      unfolding kw_pattern_AND by (rule rmatch_glue) (simp_all add: not_space)
    then have "keyword_between ''AND'' q" by (rule keyword_between_drop)
    with assms show False by simp
  qed
qed

lemma re_sub_kw_OR:
  assumes "\<not> keyword_between ''OR'' q"
  shows "re_sub (kw_pattern ''OR'') r q = q"
proof (rule re_sub_no_match)
  fix i
  show "rmatch (kw_pattern ''OR'') (drop i q) = None"
  proof (rule ccontr)
    assume "rmatch (kw_pattern ''OR'') (drop i q) \<noteq> None"
    then obtain x where "rmatch (kw_pattern ''OR'') (drop i q) = Some x" by blast
    then have "glue_at ''OR'' (drop i q)"
      unfolding kw_pattern_OR by (rule rmatch_glue) (simp_all add: not_space)
    then have "keyword_between ''OR'' q" by (rule keyword_between_drop)
    with assms show False by simp
  qed
qed

lemma re_sub_ne:
  assumes "\<not> contains ''!='' q"
  shows "re_sub (cmp_pattern ''!='') r q = q"
proof (rule re_sub_no_match)
  fix i
  show "rmatch (cmp_pattern ''!='') (drop i q) = None"
  proof (rule ccontr)
    assume "rmatch (cmp_pattern ''!='') (drop i q) \<noteq> None"
    then obtain x where "rmatch (cmp_pattern ''!='') (drop i q) = Some x" by blast
    then have "contains ''!='' (drop i q)" by (rule rmatch_ne_contains)
    then have "contains ''!='' q" by (rule contains_drop)
    with assms show False by simp
  qed
qed

lemma re_sub_gt:
  assumes "CHR ''>'' \<notin> set q"
  shows "re_sub (cmp_pattern ''>'') r q = q" "re_sub (cmp_pattern ''>='') r q = q"
  using assms by (simp_all add: re_sub_absent_char[where c = "CHR ''>''"] cmp_pattern_def)

lemma re_sub_lt:
  assumes "CHR ''<'' \<notin> set q"
  shows "re_sub (cmp_pattern ''<'') r q = q" "re_sub (cmp_pattern ''<='') r q = q"
  using assms by (simp_all add: re_sub_absent_char[where c = "CHR ''<''"] cmp_pattern_def)

lemma native_example: "native_syntax ''(Price=100000+),(City=PORTLAND)''"
  by code_simp

text \<open>
  C6, amended. A query that is in native syntax already (no \<^verbatim>\<open>>\<close>, no \<^verbatim>\<open><\<close>, no
  \<^verbatim>\<open>!=\<close>, no \<^verbatim>\<open>AND\<close> or \<^verbatim>\<open>OR\<close> with whitespace around it between a closing and an
  opening parenthesis) is returned unchanged.
\<close>

theorem fix_rets_operators_native_unchanged:
  assumes "native_syntax q"
  shows "fix_rets_operators q = q"
proof -
  from assms have h: "CHR ''>'' \<notin> set q" "CHR ''<'' \<notin> set q" "\<not> contains ''!='' q"
    "\<not> keyword_between ''AND'' q" "\<not> keyword_between ''OR'' q"
    by (simp_all add: native_syntax_def)
  show ?thesis
    unfolding fix_rets_operators_def Let_def
    by (simp only: re_sub_gt[OF h(1)] re_sub_lt[OF h(2)] re_sub_ne[OF h(3)]
          re_sub_kw_AND[OF h(4)] re_sub_kw_OR[OF h(5)])
qed

theorem fix_rets_operators_native_unchanged_witness:
  "native_syntax ''(Price=100000+),(City=PORTLAND)'' \<and>
   fix_rets_operators ''(Price=100000+),(City=PORTLAND)'' = ''(Price=100000+),(City=PORTLAND)''"
  using fix_rets_operators_native_unchanged [OF native_example] native_example by (rule_tac conjI)


section \<open>Properties of the RETS client\<close>

subsection \<open>A Matrix row with a leading empty field\<close>

lemma strip_header: "py_strip columns_ABC = columns_ABC"
  by (simp add: columns_ABC_def py_strip_def is_space_def TAB_def)

lemma split_header: "split_on TAB columns_ABC = [''A'', ''B'', ''C'']"
  by (simp add: columns_ABC_def TAB_def)

lemma split_row: "split_on TAB data_v123 = ['''', ''v1'', ''v2'', ''v3'']"
  by (simp add: data_v123_def TAB_def)

lemma cells: "cell ''v1'' = Some ''v1''" "cell ''v2'' = Some ''v2''" "cell ''v3'' = Some ''v3''"
  by (simp_all add: cell_def py_strip_def is_space_def)

lemma realigned_row:
  "matrix_row TAB [''A'', ''B'', ''C''] data_v123 =
     [(''A'', Some ''v1''), (''B'', Some ''v2''), (''C'', Some ''v3'')]"
  unfolding matrix_row_def split_row
  by (simp add: align_values_def cells enumerate_eq_zip upt_rec)

lemma nonempty_texts: "columns_ABC \<noteq> []" "data_v123 \<noteq> []"
  by (simp_all add: columns_ABC_def data_v123_def)

text \<open>
  C7. Let the response parse to a document whose first \<^verbatim>\<open>COLUMNS\<close> element has the
  text \<^verbatim>\<open>A\tB\tC\<close>, whose first \<^verbatim>\<open>DELIMITER\<close> element has the value \<^verbatim>\<open>09\<close>, and whose
  only \<^verbatim>\<open>DATA\<close> element has the text \<^verbatim>\<open>\tv1\tv2\tv3\<close>. The row has four values for three
  headers; the parser drops the leading empty value and returns the one record
  \<open>{A: v1, B: v2, C: v3}\<close>.
\<close>

theorem matrix_row_realigned:
  assumes "xml_parse response_text = Some doc"
    and "find_first ''COLUMNS'' doc = Some columns_elem"
    and "elem_text columns_elem = Some columns_ABC"
    and "find_first ''DELIMITER'' doc = Some delimiter_elem"
    and "map_of (attrib delimiter_elem) ''value'' = Some ''09''"
    and "findall ''DATA'' doc = [data_elem]"
    and "elem_text data_elem = Some data_v123"
  shows "parse_search_response xml_parse chr_int response_text =
           Some [[(''A'', Some ''v1''), (''B'', Some ''v2''), (''C'', Some ''v3'')]]"
proof -
  have d: "choose_delimiter chr_int (find_first ''DELIMITER'' doc) = Some TAB"
    using assms(4,5) by (simp add: choose_delimiter_def TAB_def)
  have c: "nonempty_text (elem_text columns_elem) = Some columns_ABC"
    using assms(3) by (simp add: nonempty_text_def nonempty_texts)
  have r: "matrix_rows TAB [''A'', ''B'', ''C''] [data_elem] [] =
             [[(''A'', Some ''v1''), (''B'', Some ''v2''), (''C'', Some ''v3'')]]"
    using assms(7) by (simp add: nonempty_text_def realigned_row nonempty_texts)
  show ?thesis
    unfolding parse_search_response_def
    by (simp add: assms(1,2,6) c d strip_header split_header r Let_def del: matrix_rows.simps)
qed

lemma matrix_doc_finds:
  "find_first ''COLUMNS'' matrix_doc = Some (Element ''COLUMNS'' [] (Some columns_ABC) [])"
  "find_first ''DELIMITER'' matrix_doc = Some (Element ''DELIMITER'' [(''value'', ''09'')] None [])"
  "findall ''DATA'' matrix_doc = [Element ''DATA'' [] (Some data_v123) []]"
  by (simp_all add: matrix_doc_def find_first_def findall_def)

theorem matrix_row_realigned_witness:
  "(\<lambda>s. Some matrix_doc) ''<RETS/>'' = Some matrix_doc \<and>
   find_first ''COLUMNS'' matrix_doc = Some (Element ''COLUMNS'' [] (Some columns_ABC) []) \<and>
   elem_text (Element ''COLUMNS'' [] (Some columns_ABC) []) = Some columns_ABC \<and>
   find_first ''DELIMITER'' matrix_doc = Some (Element ''DELIMITER'' [(''value'', ''09'')] None []) \<and>
   map_of (attrib (Element ''DELIMITER'' [(''value'', ''09'')] None [])) ''value'' = Some ''09'' \<and>
   findall ''DATA'' matrix_doc = [Element ''DATA'' [] (Some data_v123) []] \<and>
   elem_text (Element ''DATA'' [] (Some data_v123) []) = Some data_v123 \<and>
   parse_search_response (\<lambda>s. Some matrix_doc) (\<lambda>s. None) ''<RETS/>'' =
     Some [[(''A'', Some ''v1''), (''B'', Some ''v2''), (''C'', Some ''v3'')]]"
proof -
  have h: "(\<lambda>s. Some matrix_doc) ''<RETS/>'' = Some matrix_doc"
    "elem_text (Element ''COLUMNS'' [] (Some columns_ABC) []) = Some columns_ABC"
    "map_of (attrib (Element ''DELIMITER'' [(''value'', ''09'')] None [])) ''value'' = Some ''09''"
    "elem_text (Element ''DATA'' [] (Some data_v123) []) = Some data_v123"
    by simp_all
  from matrix_row_realigned [OF h(1) matrix_doc_finds(1) h(2) matrix_doc_finds(2) h(3)
      matrix_doc_finds(3) h(4), of "\<lambda>s. None"]
  show ?thesis using h matrix_doc_finds by simp
qed


subsection \<open>The default query\<close>

lemma query_param:
  "map_of (search_params resource class_name query limit select) ''Query'' =
     Some (if py_strip query = [] then ''(ListingId=*)'' else py_strip query)"
proof -
  have "py_strip [] = []" by (simp add: py_strip_def)
  then show ?thesis
    by (auto simp: search_params_def Let_def AList.update_conv')
qed

lemma py_strip_empty_iff: "py_strip q = [] \<longleftrightarrow> list_all is_space q"
proof -
  have "py_strip q = [] \<longleftrightarrow> (\<forall>x\<in>set (dropWhile is_space q). is_space x)"
    by (simp add: py_strip_def dropWhile_eq_Nil_conv)
  also have "\<dots> \<longleftrightarrow> dropWhile is_space q = []"
  proof
    assume a: "\<forall>x\<in>set (dropWhile is_space q). is_space x"
    show "dropWhile is_space q = []"
    proof (rule ccontr)
      assume "dropWhile is_space q \<noteq> []"
      then have "\<not> is_space (hd (dropWhile is_space q))" by (rule hd_dropWhile)
      moreover have "hd (dropWhile is_space q) \<in> set (dropWhile is_space q)"
        using \<open>dropWhile is_space q \<noteq> []\<close> by (rule hd_in_set)
      ultimately show False using a by blast
    qed
  next
    assume e: "dropWhile is_space q = []"
    show "\<forall>x\<in>set (dropWhile is_space q). is_space x" unfolding e by simp
  qed
  also have "\<dots> \<longleftrightarrow> list_all is_space q"
    by (simp add: dropWhile_eq_Nil_conv list_all_iff)
  finally show ?thesis .
qed

text \<open>
  C8. A connected client with a session sends exactly one request, to its search URL, with
  \<^verbatim>\<open>QueryType=DMQL2\<close>; its \<^verbatim>\<open>Query\<close> parameter is \<^verbatim>\<open>(ListingId=*)\<close> when the caller's
  query is empty or whitespace only, and the stripped caller's query otherwise.
\<close>

theorem execute_query_default_query:
  assumes "rets_connected c" and "rets_session c"
  shows "\<exists>params. snd (execute_query net xml_parse chr_int c resource class_name query limit select)
                    = [(rets_search_url c, params)] \<and>
                  map_of params ''QueryType'' = Some ''DMQL2'' \<and>
                  map_of params ''Query'' =
                    Some (if list_all is_space query then ''(ListingId=*)'' else py_strip query)"
proof -
  have s: "snd (execute_query net xml_parse chr_int c resource class_name query limit select)
           = [(rets_search_url c, search_params resource class_name query limit select)]"
    using assms by (simp add: execute_query_def Let_def split: http_outcome.split)
  have t: "map_of (search_params resource class_name query limit select) ''QueryType'' = Some ''DMQL2''"
    by (simp add: search_params_def Let_def AList.update_conv')
  have q: "map_of (search_params resource class_name query limit select) ''Query'' =
             Some (if list_all is_space query then ''(ListingId=*)'' else py_strip query)"
    using query_param[of resource class_name query limit select]
    by (simp only: py_strip_empty_iff)
  from s t q show ?thesis by blast
qed

lemma live_client_ok: "rets_connected live_client" "rets_session live_client"
  by (simp_all add: live_client_def)

lemma blank_query_blank: "list_all is_space blank_query"
  by (simp add: is_space_def blank_query_def)

theorem execute_query_default_query_witness:
  "rets_connected live_client \<and> rets_session live_client \<and> list_all is_space blank_query \<and>
   (\<exists>params. snd (execute_query refusing_net (\<lambda>s. None) (\<lambda>s. None) live_client ''Property''
                     ''Listing'' blank_query 100 [])
                = [(rets_search_url live_client, params)] \<and>
              map_of params ''QueryType'' = Some ''DMQL2'' \<and>
              map_of params ''Query'' = Some ''(ListingId=*)'')"
  using execute_query_default_query [OF live_client_ok, of refusing_net "\<lambda>s. None" "\<lambda>s. None"
      "''Property''" "''Listing''" blank_query 100 "[]"] live_client_ok blank_query_blank
  by (simp only: if_True simp_thms)


subsection \<open>Connecting to a server that refuses\<close>

lemma login_ok_not_Next: "login_ok p c r \<noteq> Next n"
  by (simp add: login_ok_def split: sum.split)

lemma matrix_probe_refused:
  assumes "\<forall>n a u. \<not> accepted (net n a u)"
  shows "(\<exists>m. matrix_probe net p auth c n = Next m) \<or> matrix_probe net p auth c n = Escaped c"
proof (cases "net n auth (rets_url c)")
  case (Response r)
  from assms have "\<not> accepted (net n auth (rets_url c))" by blast
  with Response have "status_code r \<noteq> 200" by (simp add: accepted_def)
  with Response show ?thesis by (simp add: matrix_probe_def)
qed (simp_all add: matrix_probe_def)

lemma try_endpoints_refused:
  assumes "\<forall>n a u. \<not> accepted (net n a u)"
  shows "(\<exists>m. try_endpoints net p auth c n es = Next m) \<or> try_endpoints net p auth c n es = Escaped c"
proof (induction es arbitrary: n)
  case Nil
  then show ?case by simp
next
  case (Cons e es)
  let ?u = "if ends_with ''.ashx'' (rets_url c) then rets_url c else rets_url c @ e"
  show ?case
  proof (cases "net n auth ?u")
    case (Response r)
    from assms have "\<not> accepted (net n auth ?u)" by blast
    with Response have "status_code r \<noteq> 200" by (simp add: accepted_def)
    with Response Cons.IH[of "Suc n"] show ?thesis by simp
  next
    case (RequestException x)
    with Cons.IH[of "Suc n"] show ?thesis by simp
  next
    case (OtherException x)
    then show ?thesis by simp
  qed
qed

lemma try_auth_methods_refused:
  assumes "\<forall>n a u. \<not> accepted (net n a u)"
  shows "try_auth_methods net p c n auths = Done False c \<or> try_auth_methods net p c n auths = Escaped c"
proof (induction auths arbitrary: n)
  case Nil
  then show ?case by simp
next
  case (Cons a auths)
  from matrix_probe_refused[OF assms] have
    "(\<exists>m. matrix_probe net p a c n = Next m) \<or> matrix_probe net p a c n = Escaped c" .
  then show ?case
  proof
    assume "\<exists>m. matrix_probe net p a c n = Next m"
    then obtain m where m: "matrix_probe net p a c n = Next m" ..
    from try_endpoints_refused[OF assms] have
      "(\<exists>k. try_endpoints net p a c m login_endpoints = Next k) \<or>
       try_endpoints net p a c m login_endpoints = Escaped c" .
    then show ?thesis
    proof
      assume "\<exists>k. try_endpoints net p a c m login_endpoints = Next k"
      then obtain k where "try_endpoints net p a c m login_endpoints = Next k" ..
      with m Cons.IH[of k] show ?thesis by simp
    next
      assume "try_endpoints net p a c m login_endpoints = Escaped c"
      with m show ?thesis by simp
    qed
  next
    assume "matrix_probe net p a c n = Escaped c"
    then show ?thesis by simp
  qed
qed

lemma RETS_connect_refused:
  assumes "\<forall>n a u. \<not> accepted (net n a u)"
  shows "RETS_connect net p c = (False, c\<lparr>rets_session := True\<rparr>)"
proof -
  from try_auth_methods_refused[OF assms] have
    "try_auth_methods net p (c\<lparr>rets_session := True\<rparr>) 0 [Basic, Digest] =
       Done False (c\<lparr>rets_session := True\<rparr>) \<or>
     try_auth_methods net p (c\<lparr>rets_session := True\<rparr>) 0 [Basic, Digest] =
       Escaped (c\<lparr>rets_session := True\<rparr>)" .
  then show ?thesis by (elim disjE) (simp_all add: RETS_connect_def)
qed

lemma make_api_request_refused:
  assumes "\<forall>q. \<not> accepted (net q)"
  shows "make_api_request net c endpoint = Inl () \<or> make_api_request net c endpoint = Inr JNull"
proof -
  let ?url = "if lstrip_char CHR ''/'' endpoint \<noteq> []
              then rstrip_char CHR ''/'' (reso_base_url c) @ ''/'' @ lstrip_char CHR ''/'' endpoint
              else rstrip_char CHR ''/'' (reso_base_url c)"
  show ?thesis
  proof (cases "net (ApiGet ?url)")
    case (Response r)
    from assms have "\<not> accepted (net (ApiGet ?url))" by blast
    with Response have "status_code r \<noteq> 200" by (simp add: accepted_def)
    with Response show ?thesis by (simp add: make_api_request_def Let_def)
  qed (simp_all add: make_api_request_def Let_def)
qed

lemma RESO_connect_refused:
  assumes "\<forall>q. \<not> accepted (net q)"
  shows "RESO_connect net c = (False, c)"
proof (cases "reso_auth_method c = ''token'' \<and> truthy (reso_access_token c)")
  case True
  from make_api_request_refused[OF assms] have
    "make_api_request net c [] = Inl () \<or> make_api_request net c [] = Inr JNull" .
  with True show ?thesis by (elim disjE) (simp_all add: RESO_connect_def)
next
  case False
  let ?q = "TokenPost (reso_token_url c)
                        [(''grant_type'', ''password''),
                         (''client_id'', reso_client_id c),
                         (''client_secret'', reso_client_secret c),
                         (''username'', reso_username c),
                         (''password'', reso_password c),
                         (''scope'', reso_scope c)]"
  have e: "RESO_connect net c =
      (if reso_token_url c = [] \<or> reso_client_id c = [] then (False, c)
       else (case net ?q of
              Response r \<Rightarrow>
                if status_code r = 200
                then (case json_body r of
                        Some (JObj token_data) \<Rightarrow>
                          (let token = (case map_of token_data ''access_token'' of
                                          None \<Rightarrow> JNull | Some t \<Rightarrow> t)
                           in if truthy token
                              then (True, c\<lparr>reso_access_token := token, reso_connected := True\<rparr>)
                              else (False, c\<lparr>reso_access_token := token\<rparr>))
                      | _ \<Rightarrow> (False, c))
                else (False, c)
            | RequestException e \<Rightarrow> (False, c)
            | OtherException e \<Rightarrow> (False, c)))"
    unfolding RESO_connect_def by (rule if_not_P[OF False])
  show ?thesis
  proof (cases "net ?q")
    case (Response r)
    from assms have "\<not> accepted (net ?q)" by blast
    with Response have "status_code r \<noteq> 200" by (simp add: accepted_def)
    with Response show ?thesis by (simp add: e)
  next
    case (RequestException x)
    then show ?thesis by (simp add: e)
  next
    case (OtherException x)
    then show ?thesis by (simp add: e)
  qed
qed

text \<open>
  C3. When no request is accepted (each one raises or is answered with a status other
  than 200: bad credentials, an invalid or expired token, every endpoint and scheme
  tried), \<^verbatim>\<open>connect\<close> of either client returns \<^verbatim>\<open>False\<close>; no exception leaves it. The
  RETS client is left with a session and otherwise as it was, the RESO client unchanged.
\<close>

theorem connect_returns_false_on_auth_failure:
  "((\<forall>n a u. \<not> accepted (rets_net n a u)) \<longrightarrow>
      RETS_connect rets_net parse_login_response rc = (False, rc\<lparr>rets_session := True\<rparr>)) \<and>
   ((\<forall>q. \<not> accepted (reso_net q)) \<longrightarrow> RESO_connect reso_net c = (False, c))"
proof (rule conjI; rule impI)
  assume "\<forall>n a u. \<not> accepted (rets_net n a u)"
  then show "RETS_connect rets_net parse_login_response rc = (False, rc\<lparr>rets_session := True\<rparr>)"
    by (rule RETS_connect_refused)
next
  assume "\<forall>q. \<not> accepted (reso_net q)"
  then show "RESO_connect reso_net c = (False, c)" by (rule RESO_connect_refused)
qed

lemma unauthorized_refused: "\<not> accepted (Response unauthorized)"
  by (simp add: accepted_def unauthorized_def)

theorem connect_returns_false_on_auth_failure_witness:
  "(\<forall>n a u. \<not> accepted ((\<lambda>n a u. Response unauthorized) n a u)) \<and>
   RETS_connect (\<lambda>n a u. Response unauthorized) (\<lambda>c s. Inr c) new_rets_client =
     (False, new_rets_client\<lparr>rets_session := True\<rparr>) \<and>
   (\<forall>q. \<not> accepted ((\<lambda>q. Response unauthorized) q)) \<and>
   RESO_connect (\<lambda>q. Response unauthorized) token_client = (False, token_client)"
proof -
  have r1: "\<forall>n a u. \<not> accepted ((\<lambda>n a u. Response unauthorized) n a u)"
    using unauthorized_refused by simp
  have r2: "\<forall>q. \<not> accepted ((\<lambda>q. Response unauthorized) q)"
    using unauthorized_refused by simp
  note t = connect_returns_false_on_auth_failure [of "\<lambda>n a u. Response unauthorized"
      "\<lambda>c s. Inr c" new_rets_client "\<lambda>q. Response unauthorized" token_client]
  have a: "RETS_connect (\<lambda>n a u. Response unauthorized) (\<lambda>c s. Inr c) new_rets_client =
     (False, new_rets_client\<lparr>rets_session := True\<rparr>)"
    by (rule mp [OF conjunct1 [OF t] r1])
  have b: "RESO_connect (\<lambda>q. Response unauthorized) token_client = (False, token_client)"
    by (rule mp [OF conjunct2 [OF t] r2])
  show ?thesis by (rule conjI [OF r1 conjI [OF a conjI [OF r2 b]]])
qed


subsection \<open>The metadata cascade\<close>

lemma some_raises_simps:
  "some_raises net url [] \<longleftrightarrow> False"
  "some_raises net url ((i, p) # reqs) \<longleftrightarrow> raises (net i url p) \<or> some_raises net url reqs"
  "some_raises net url (reqs @ reqs') \<longleftrightarrow> some_raises net url reqs \<or> some_raises net url reqs'"
  by (auto simp: some_raises_def)

lemma dict_update_simps:
  "dict_update d [] = d"
  "dict_update d ((k, v) # kvs) = dict_update (AList.update k v d) kvs"
  "dict_update d (kvs @ kvs') = dict_update (dict_update d kvs) kvs'"
  by (simp_all add: dict_update_def)

lemma names_under_simps:
  "names_under key [] = []"
  "dict_get d key = [] \<Longrightarrow> names_under key (d # ds) = names_under key ds"
  "dict_get d key \<noteq> [] \<Longrightarrow> names_under key (d # ds) = dict_get d key # names_under key ds"
  by (simp_all add: names_under_def)

lemma table_loop_spec:
  "table_loop net xml_parse c rn cls n acc =
     (if some_raises net (rets_metadata_url c) (table_requests rn (names_under ''ClassName'' cls) n)
      then None
      else Some (dict_update acc
                   (stored_tables net (parse_metadata_response xml_parse) (rets_metadata_url c) rn
                      (names_under ''ClassName'' cls) n),
                 n + length (names_under ''ClassName'' cls)))"
proof (induction cls arbitrary: n acc)
  case Nil
  then show ?case by (simp add: names_under_simps some_raises_simps dict_update_simps)
next
  case (Cons class_info rest)
  let ?cn = "dict_get class_info ''ClassName''"
  show ?case
  proof (cases "?cn = []")
    case True
    then show ?thesis by (simp add: names_under_simps Cons.IH)
  next
    case False
    note ns = names_under_simps(3)[OF False]
    let ?o = "net n (rets_metadata_url c) (table_params rn ?cn)"
    have o: "net n (rets_metadata_url c)
               [(''Type'', ''METADATA-TABLE''), (''ID'', rn @ '':'' @ ?cn)] = ?o"
      by (simp add: table_params_def)
    show ?thesis
    proof (cases ?o)
      case (Response r)
      show ?thesis
      proof (cases "status_code r = 200")
        case True
        with False Response o show ?thesis
          by (simp add: ns Let_def Cons.IH some_raises_simps dict_update_simps raises_def
                answered_ok_def del: append.simps)
      next
        case ne: False
        with False Response o show ?thesis
          by (simp add: ns Let_def Cons.IH some_raises_simps dict_update_simps raises_def
                answered_ok_def del: append.simps)
      qed
    next
      case (RequestException e)
      with False o show ?thesis
        by (simp add: ns Let_def some_raises_simps raises_def del: append.simps)
    next
      case (OtherException e)
      with False o show ?thesis
        by (simp add: ns Let_def some_raises_simps raises_def del: append.simps)
    qed
  qed
qed

lemma class_loop_spec:
  "(some_raises net (rets_metadata_url c)
      (class_requests net (parse_metadata_response xml_parse) (rets_metadata_url c)
         (names_under ''ResourceID'' rs) n) \<longrightarrow>
    class_loop net xml_parse c rs n acc = None) \<and>
   (\<not> some_raises net (rets_metadata_url c)
      (class_requests net (parse_metadata_response xml_parse) (rets_metadata_url c)
         (names_under ''ResourceID'' rs) n) \<longrightarrow>
    (\<exists>n'. class_loop net xml_parse c rs n acc =
       Some (dict_update acc
               (stored_classes net (parse_metadata_response xml_parse) (rets_metadata_url c)
                  (names_under ''ResourceID'' rs) n), n')))"
proof (induction rs arbitrary: n acc)
  case Nil
  then show ?case by (simp add: names_under_simps some_raises_simps dict_update_simps)
next
  case (Cons resource rest)
  let ?rn = "dict_get resource ''ResourceID''"
  let ?P = "parse_metadata_response xml_parse"
  let ?url = "rets_metadata_url c"
  show ?case
  proof (cases "?rn = []")
    case True
    then show ?thesis using Cons.IH[of n acc] by (simp add: names_under_simps)
  next
    case False
    note ns = names_under_simps(3)[OF False]
    let ?o = "net n ?url (class_params ?rn)"
    have o: "net n ?url [(''Type'', ''METADATA-CLASS''), (''ID'', ?rn)] = ?o"
      by (simp add: class_params_def)
    show ?thesis
    proof (cases ?o)
      case (Response r)
      show ?thesis
      proof (cases "status_code r = 200")
        case True
        let ?cm = "?P (resp_text r)"
        let ?acc1 = "AList.update (''CLASS_'' @ ?rn) ?cm acc"
        let ?n1 = "Suc n + length (class_names ?cm)"
        have ok: "answered_ok ?o = Some (resp_text r)"
          using Response True by (simp add: answered_ok_def)
        have nr: "\<not> raises ?o" using Response by (simp add: raises_def)
        have cl: "class_loop net xml_parse c (resource # rest) n acc =
                    (case table_loop net xml_parse c ?rn (md_classes ?cm) (Suc n) ?acc1 of
                       None \<Rightarrow> None
                     | Some (metadata_result', n') \<Rightarrow>
                         class_loop net xml_parse c rest n' metadata_result')"
          using False Response True o by (simp add: Let_def)
        note tl = table_loop_spec[of net xml_parse c ?rn "md_classes ?cm" "Suc n" ?acc1,
            folded class_names_def]
        show ?thesis
        proof (cases "some_raises net ?url (table_requests ?rn (class_names ?cm) (Suc n))")
          case True
          then have "class_loop net xml_parse c (resource # rest) n acc = None"
            unfolding cl tl by simp
          moreover have "some_raises net ?url
                           (class_requests net ?P ?url (names_under ''ResourceID'' (resource # rest)) n)"
            using True by (simp add: ns ok some_raises_simps)
          ultimately show ?thesis by simp
        next
          case nt: False
          let ?acc2 = "dict_update ?acc1 (stored_tables net ?P ?url ?rn (class_names ?cm) (Suc n))"
          have cl2: "class_loop net xml_parse c (resource # rest) n acc =
                       class_loop net xml_parse c rest ?n1 ?acc2"
            using nt unfolding cl tl by simp
          have sr: "some_raises net ?url
                      (class_requests net ?P ?url (names_under ''ResourceID'' (resource # rest)) n)
                    \<longleftrightarrow> some_raises net ?url
                          (class_requests net ?P ?url (names_under ''ResourceID'' rest) ?n1)"
            using nt nr by (simp add: ns ok some_raises_simps)
          have se: "dict_update acc
                      (stored_classes net ?P ?url (names_under ''ResourceID'' (resource # rest)) n)
                    = dict_update ?acc2
                        (stored_classes net ?P ?url (names_under ''ResourceID'' rest) ?n1)"
            by (simp add: ns ok dict_update_simps del: append.simps)
          from Cons.IH[of ?n1 ?acc2] show ?thesis
            unfolding cl2 sr se .
        qed
      next
        case ne: False
        have ok: "answered_ok ?o = None"
          using Response ne by (simp add: answered_ok_def)
        have nr: "\<not> raises ?o" using Response by (simp add: raises_def)
        have cl: "class_loop net xml_parse c (resource # rest) n acc =
                    class_loop net xml_parse c rest (Suc n) acc"
          using False Response ne o by (simp add: Let_def)
        have sr: "some_raises net ?url
                      (class_requests net ?P ?url (names_under ''ResourceID'' (resource # rest)) n)
                    \<longleftrightarrow> some_raises net ?url
                          (class_requests net ?P ?url (names_under ''ResourceID'' rest) (Suc n))"
          using nr by (simp add: ns ok some_raises_simps)
        have se: "stored_classes net ?P ?url (names_under ''ResourceID'' (resource # rest)) n
                    = stored_classes net ?P ?url (names_under ''ResourceID'' rest) (Suc n)"
          by (simp add: ns ok)
        from Cons.IH[of "Suc n" acc] show ?thesis
          unfolding cl sr se .
      qed
    next
      case (RequestException e)
      then have "raises ?o" by (simp add: raises_def)
      then have "some_raises net ?url
                   (class_requests net ?P ?url (names_under ''ResourceID'' (resource # rest)) n)"
        by (simp add: ns some_raises_simps)
      moreover have "class_loop net xml_parse c (resource # rest) n acc = None"
        using False RequestException o by (simp add: Let_def)
      ultimately show ?thesis by simp
    next
      case (OtherException e)
      then have "raises ?o" by (simp add: raises_def)
      then have "some_raises net ?url
                   (class_requests net ?P ?url (names_under ''ResourceID'' (resource # rest)) n)"
        by (simp add: ns some_raises_simps)
      moreover have "class_loop net xml_parse c (resource # rest) n acc = None"
        using False OtherException o by (simp add: Let_def)
      ultimately show ?thesis by simp
    qed
  qed
qed

lemma get_metadata_spec:
  assumes "rets_connected c" and "rets_session c"
  shows "get_metadata net xml_parse c =
     (if some_raises net (rets_metadata_url c)
           (sent_requests net (parse_metadata_response xml_parse) (rets_metadata_url c)) \<or>
         answered_ok (net 0 (rets_metadata_url c) system_params) = None
      then None
      else Some (dict_update []
                   (stored_entries net (parse_metadata_response xml_parse) (rets_metadata_url c))))"
proof -
  let ?P = "parse_metadata_response xml_parse"
  let ?url = "rets_metadata_url c"
  let ?o0 = "net 0 ?url system_params"
  let ?o1 = "net 1 ?url resource_params"
  note gd = get_metadata_def system_params_def resource_params_def Let_def
  show ?thesis
  proof (cases ?o0)
    case r0: (Response r)
    have nr0: "\<not> raises ?o0" using r0 by (simp add: raises_def)
    show ?thesis
    proof (cases "status_code r = 200")
      case ok0: True
      have a0: "answered_ok ?o0 = Some (resp_text r)"
        using r0 ok0 by (simp add: answered_ok_def)
      show ?thesis
      proof (cases ?o1)
        case r1: (Response r2)
        have nr1: "\<not> raises ?o1" using r1 by (simp add: raises_def)
        show ?thesis
        proof (cases "status_code r2 = 200")
          case ok1: True
          have a1: "answered_ok ?o1 = Some (resp_text r2)"
            using r1 ok1 by (simp add: answered_ok_def)
          let ?acc = "AList.update ''RESOURCE'' (?P (resp_text r2)) [(''SYSTEM'', ?P (resp_text r))]"
          let ?rs = "md_resources (?P (resp_text r2))"
          have g2: "get_metadata net xml_parse c =
                      (case class_loop net xml_parse c ?rs 2 ?acc of
                         None \<Rightarrow> None
                       | Some (metadata_result', n) \<Rightarrow> Some metadata_result')"
            using assms r0 ok0 r1 ok1 by (simp add: gd del: class_loop.simps One_nat_def)
          have sr: "some_raises net ?url (sent_requests net ?P ?url) \<longleftrightarrow>
                    some_raises net ?url
                      (class_requests net ?P ?url (names_under ''ResourceID'' ?rs) 2)"
            using nr0 nr1 by (simp add: sent_requests_def a0 a1 some_raises_simps resource_names_def del: One_nat_def)
          have se: "dict_update [] (stored_entries net ?P ?url) =
                    dict_update ?acc (stored_classes net ?P ?url (names_under ''ResourceID'' ?rs) 2)"
            by (simp add: stored_entries_def a0 a1 dict_update_simps resource_names_def del: One_nat_def)
          note cl = class_loop_spec[of net c xml_parse ?rs 2 ?acc]
          show ?thesis
          proof (cases "some_raises net ?url
                          (class_requests net ?P ?url (names_under ''ResourceID'' ?rs) 2)")
            case True
            with cl have "class_loop net xml_parse c ?rs 2 ?acc = None" by blast
            then show ?thesis unfolding g2 sr using True by simp
          next
            case False
            with cl obtain n' where
              "class_loop net xml_parse c ?rs 2 ?acc =
                 Some (dict_update ?acc
                         (stored_classes net ?P ?url (names_under ''ResourceID'' ?rs) 2), n')"
              by blast
            then show ?thesis unfolding g2 sr se using False a0 by simp
          qed
        next
          case ne1: False
          have a1: "answered_ok ?o1 = None" using r1 ne1 by (simp add: answered_ok_def)
          have "get_metadata net xml_parse c = Some [(''SYSTEM'', ?P (resp_text r))]"
            using assms r0 ok0 r1 ne1 by (simp add: gd del: class_loop.simps One_nat_def)
          moreover have "\<not> some_raises net ?url (sent_requests net ?P ?url)"
            using nr0 nr1 by (simp add: sent_requests_def a0 a1 some_raises_simps del: One_nat_def)
          moreover have "dict_update [] (stored_entries net ?P ?url) = [(''SYSTEM'', ?P (resp_text r))]"
            by (simp add: stored_entries_def a0 a1 dict_update_simps del: One_nat_def)
          ultimately show ?thesis using a0 by simp
        qed
      next
        case e1: (RequestException e)
        have "get_metadata net xml_parse c = None" using assms r0 ok0 e1 by (simp add: gd del: class_loop.simps One_nat_def)
        moreover have "some_raises net ?url (sent_requests net ?P ?url)"
          using e1 by (simp add: sent_requests_def a0 some_raises_simps raises_def del: One_nat_def)
        ultimately show ?thesis by simp
      next
        case e1: (OtherException e)
        have "get_metadata net xml_parse c = None" using assms r0 ok0 e1 by (simp add: gd del: class_loop.simps One_nat_def)
        moreover have "some_raises net ?url (sent_requests net ?P ?url)"
          using e1 by (simp add: sent_requests_def a0 some_raises_simps raises_def del: One_nat_def)
        ultimately show ?thesis by simp
      qed
    next
      case ne0: False
      have "answered_ok ?o0 = None" using r0 ne0 by (simp add: answered_ok_def)
      moreover have "get_metadata net xml_parse c = None" using assms r0 ne0 by (simp add: gd del: class_loop.simps One_nat_def)
      ultimately show ?thesis by simp
    qed
  next
    case e0: (RequestException e)
    have "answered_ok ?o0 = None" using e0 by (simp add: answered_ok_def)
    moreover have "get_metadata net xml_parse c = None" using assms e0 by (simp add: gd del: class_loop.simps One_nat_def)
    ultimately show ?thesis by simp
  next
    case e0: (OtherException e)
    have "answered_ok ?o0 = None" using e0 by (simp add: answered_ok_def)
    moreover have "get_metadata net xml_parse c = None" using assms e0 by (simp add: gd del: class_loop.simps One_nat_def)
    ultimately show ?thesis by simp
  qed
qed


lemma map_of_dict_update: "map_of (dict_update d E) = map_of d ++ map_of (rev E)"
proof (induction E arbitrary: d)
  case Nil
  then show ?case by (simp add: dict_update_simps)
next
  case (Cons e E)
  obtain k v where e: "e = (k, v)" by (cases e)
  have "map_of (dict_update d (e # E)) = map_of (AList.update k v d) ++ map_of (rev E)"
    by (simp add: e dict_update_simps Cons.IH)
  also have "\<dots> = (map_of d ++ [k \<mapsto> v]) ++ map_of (rev E)"
    by (simp add: AList.update_conv')
  also have "\<dots> = map_of d ++ ([k \<mapsto> v] ++ map_of (rev E))"
    by simp
  also have "[k \<mapsto> v] ++ map_of (rev E) = map_of (rev (e # E))"
    by (simp add: e map_of_append)
  finally show ?case .
qed

lemma map_of_dict_update_absent:
  assumes "k \<notin> fst ` set E"
  shows "map_of (dict_update d E) k = map_of d k"
proof -
  from assms have "map_of (rev E) k = None" by (simp add: map_of_eq_None_iff)
  then show ?thesis by (simp add: map_of_dict_update map_add_def)
qed

lemma map_of_dict_update_unique:
  assumes "(k, v) \<in> set E" and "\<And>v'. (k, v') \<in> set E \<Longrightarrow> v' = v"
  shows "map_of (dict_update d E) k = Some v"
proof -
  from assms(1) have "k \<in> fst ` set (rev E)" by force
  then obtain v' where m: "map_of (rev E) k = Some v'"
    by (metis map_of_eq_None_iff not_None_eq)
  then have "(k, v') \<in> set E" by (metis map_of_SomeD set_rev)
  with assms(2) have "v' = v" by blast
  with m show ?thesis by (simp add: map_of_dict_update map_add_def)
qed

lemma keys_dict_update: "fst ` set (dict_update d E) = fst ` set d \<union> fst ` set E"
proof (induction E arbitrary: d)
  case Nil
  then show ?case by (simp add: dict_update_simps)
next
  case (Cons e E)
  obtain k v where e: "e = (k, v)" by (cases e)
  show ?case by (simp add: e dict_update_simps Cons.IH keys_update)
qed


lemma stored_tables_mem:
  assumes "\<forall>n p. net n url p = srv p"
  shows "(k, v) \<in> set (stored_tables net P url rn cns n) \<longleftrightarrow>
         (\<exists>cn tt. cn \<in> set cns \<and> answered_ok (srv (table_params rn cn)) = Some tt \<and>
                  k = ''TABLE_'' @ rn @ ''_'' @ cn \<and> v = P tt)"
proof -
  define A where "A cn \<longleftrightarrow> (\<exists>tt. answered_ok (srv (table_params rn cn)) = Some tt \<and>
                              k = ''TABLE_'' @ rn @ ''_'' @ cn \<and> v = P tt)" for cn
  have step: "(k, v) \<in> set (case answered_ok (net n url (table_params rn cn)) of
                               Some t \<Rightarrow> [(''TABLE_'' @ rn @ ''_'' @ cn, P t)]
                             | None \<Rightarrow> []) \<longleftrightarrow> A cn" for cn n
  proof (cases "answered_ok (srv (table_params rn cn))")
    case None
    then show ?thesis using assms by (simp add: A_def)
  next
    case (Some tt)
    then show ?thesis using assms by (simp add: A_def del: append.simps)
  qed
  have "(k, v) \<in> set (stored_tables net P url rn cns n) \<longleftrightarrow> (\<exists>cn. cn \<in> set cns \<and> A cn)"
  proof (induction cns arbitrary: n)
    case Nil
    then show ?case by simp
  next
    case (Cons cn cns)
    have "(k, v) \<in> set (stored_tables net P url rn (cn # cns) n) \<longleftrightarrow>
          A cn \<or> (k, v) \<in> set (stored_tables net P url rn cns (Suc n))"
      using step[where n = n and cn = cn] by (simp del: append.simps)
    also have "\<dots> \<longleftrightarrow> A cn \<or> (\<exists>cn'. cn' \<in> set cns \<and> A cn')"
      by (simp only: Cons.IH)
    also have "\<dots> \<longleftrightarrow> (\<exists>cn'. cn' \<in> set (cn # cns) \<and> A cn')"
      by (simp only: set_simps insert_iff) blast
    finally show ?case .
  qed
  then show ?thesis unfolding A_def by blast
qed

lemma stored_classes_mem:
  assumes "\<forall>n p. net n url p = srv p"
  shows "(k, v) \<in> set (stored_classes net P url rns n) \<longleftrightarrow>
         (\<exists>rn t. rn \<in> set rns \<and> answered_ok (srv (class_params rn)) = Some t \<and>
                 ((k = ''CLASS_'' @ rn \<and> v = P t) \<or>
                  (\<exists>cn tt. cn \<in> set (class_names (P t)) \<and>
                           answered_ok (srv (table_params rn cn)) = Some tt \<and>
                           k = ''TABLE_'' @ rn @ ''_'' @ cn \<and> v = P tt)))"
proof -
  define B where "B rn \<longleftrightarrow> (\<exists>t. answered_ok (srv (class_params rn)) = Some t \<and>
                 ((k = ''CLASS_'' @ rn \<and> v = P t) \<or>
                  (\<exists>cn tt. cn \<in> set (class_names (P t)) \<and>
                           answered_ok (srv (table_params rn cn)) = Some tt \<and>
                           k = ''TABLE_'' @ rn @ ''_'' @ cn \<and> v = P tt)))" for rn
  note tm = stored_tables_mem[where net = net and url = url and srv = srv, OF assms]
  have "(k, v) \<in> set (stored_classes net P url rns n) \<longleftrightarrow> (\<exists>rn. rn \<in> set rns \<and> B rn)"
  proof (induction rns arbitrary: n)
    case Nil
    then show ?case by simp
  next
    case (Cons rn rns)
    have s: "net n url (class_params rn) = srv (class_params rn)" using assms by simp
    have "(k, v) \<in> set (stored_classes net P url (rn # rns) n) \<longleftrightarrow>
          B rn \<or> (\<exists>rn'. rn' \<in> set rns \<and> B rn')"
    proof (cases "answered_ok (srv (class_params rn))")
      case None
      then have "\<not> B rn" by (simp add: B_def)
      moreover have "(k, v) \<in> set (stored_classes net P url (rn # rns) n) \<longleftrightarrow>
                     (k, v) \<in> set (stored_classes net P url rns (Suc n))"
        using None by (simp add: s)
      ultimately show ?thesis by (simp only: Cons.IH simp_thms)
    next
      case (Some t)
      let ?n1 = "Suc n + length (class_names (P t))"
      have b: "B rn \<longleftrightarrow> (k = ''CLASS_'' @ rn \<and> v = P t) \<or>
                 (k, v) \<in> set (stored_tables net P url rn (class_names (P t)) (Suc n))"
        unfolding B_def tm using Some by simp
      have "(k, v) \<in> set (stored_classes net P url (rn # rns) n) \<longleftrightarrow>
            ((k = ''CLASS_'' @ rn \<and> v = P t) \<or>
             (k, v) \<in> set (stored_tables net P url rn (class_names (P t)) (Suc n))) \<or>
            (k, v) \<in> set (stored_classes net P url rns ?n1)"
        using Some by (simp add: s del: append.simps)
      then show ?thesis by (simp only: b[symmetric] Cons.IH)
    qed
    also have "\<dots> \<longleftrightarrow> (\<exists>rn'. rn' \<in> set (rn # rns) \<and> B rn')"
      by (simp only: set_simps insert_iff) blast
    finally show ?case .
  qed
  then show ?thesis unfolding B_def by blast
qed


lemma key_facts:
  "''SYSTEM'' \<noteq> ''CLASS_'' @ x" "''SYSTEM'' \<noteq> ''TABLE_'' @ x"
  "''RESOURCE'' \<noteq> ''CLASS_'' @ x" "''RESOURCE'' \<noteq> ''TABLE_'' @ x"
  "''CLASS_'' @ x \<noteq> ''TABLE_'' @ y" "''TABLE_'' @ y \<noteq> ''CLASS_'' @ x"
  "''CLASS_'' @ x = ''CLASS_'' @ y \<longleftrightarrow> x = y"
  "''TABLE_'' @ x = ''TABLE_'' @ y \<longleftrightarrow> x = y"
  "''SYSTEM'' \<noteq> ''RESOURCE''"
  by simp_all

lemma stored_tables_keys:
  "(k, v) \<in> set (stored_tables net P url rn cns n) \<Longrightarrow> \<exists>x. k = ''TABLE_'' @ x"
proof (induction cns arbitrary: n)
  case Nil
  then show ?case by simp
next
  case (Cons cn cns)
  from Cons.prems have
    "(k, v) \<in> set (case answered_ok (net n url (table_params rn cn)) of
                     Some t \<Rightarrow> [(''TABLE_'' @ rn @ ''_'' @ cn, P t)] | None \<Rightarrow> []) \<or>
     (k, v) \<in> set (stored_tables net P url rn cns (Suc n))"
    by (simp del: append.simps)
  then show ?case
  proof
    assume "(k, v) \<in> set (case answered_ok (net n url (table_params rn cn)) of
                     Some t \<Rightarrow> [(''TABLE_'' @ rn @ ''_'' @ cn, P t)] | None \<Rightarrow> [])"
    then have "k = ''TABLE_'' @ (rn @ ''_'' @ cn)"
      by (cases "answered_ok (net n url (table_params rn cn))") (simp_all del: append.simps)
    then show ?thesis ..
  next
    assume "(k, v) \<in> set (stored_tables net P url rn cns (Suc n))"
    then show ?thesis by (rule Cons.IH)
  qed
qed

lemma stored_classes_keys:
  "(k, v) \<in> set (stored_classes net P url rns n) \<Longrightarrow>
   (\<exists>x. k = ''CLASS_'' @ x) \<or> (\<exists>x. k = ''TABLE_'' @ x)"
proof (induction rns arbitrary: n)
  case Nil
  then show ?case by simp
next
  case (Cons rn rns)
  show ?case
  proof (cases "answered_ok (net n url (class_params rn))")
    case None
    with Cons.prems have "(k, v) \<in> set (stored_classes net P url rns (Suc n))" by simp
    then show ?thesis by (rule Cons.IH)
  next
    case (Some t)
    with Cons.prems have
      "k = ''CLASS_'' @ rn \<or>
       (k, v) \<in> set (stored_tables net P url rn (class_names (P t)) (Suc n)) \<or>
       (k, v) \<in> set (stored_classes net P url rns (Suc n + length (class_names (P t))))"
      by (simp del: append.simps) blast
    then show ?thesis
      using stored_tables_keys[of k v net P url rn "class_names (P t)" "Suc n"]
        Cons.IH[of "Suc n + length (class_names (P t))"]
      by blast
  qed
qed

lemma stored_entries_base:
  assumes "answered_ok (net 0 url system_params) = Some t0"
  shows "map_of (dict_update [] (stored_entries net P url)) ''SYSTEM'' = Some (P t0)"
    and "answered_ok (net 1 url resource_params) = None \<Longrightarrow>
         dict_update [] (stored_entries net P url) = [(''SYSTEM'', P t0)]"
    and "answered_ok (net 1 url resource_params) = Some t1 \<Longrightarrow>
         map_of (dict_update [] (stored_entries net P url)) ''RESOURCE'' = Some (P t1)"
proof -
  have not_level: "(''SYSTEM'', v) \<notin> set (stored_classes net P url rns n)"
    "(''RESOURCE'', v) \<notin> set (stored_classes net P url rns n)" for v rns n
    using stored_classes_keys[of "''SYSTEM''" v net P url rns n]
      stored_classes_keys[of "''RESOURCE''" v net P url rns n] key_facts(1-4)
    by blast+
  show "answered_ok (net 1 url resource_params) = None \<Longrightarrow>
         dict_update [] (stored_entries net P url) = [(''SYSTEM'', P t0)]"
    using assms by (simp add: stored_entries_def dict_update_simps del: One_nat_def)
  show "map_of (dict_update [] (stored_entries net P url)) ''SYSTEM'' = Some (P t0)"
  proof (rule map_of_dict_update_unique)
    show "(''SYSTEM'', P t0) \<in> set (stored_entries net P url)"
      using assms by (simp add: stored_entries_def)
    fix v' assume "(''SYSTEM'', v') \<in> set (stored_entries net P url)"
    then show "v' = P t0"
      using assms not_level(1)
      by (cases "answered_ok (net 1 url resource_params)")
         (simp_all add: stored_entries_def del: One_nat_def)
  qed
  show "map_of (dict_update [] (stored_entries net P url)) ''RESOURCE'' = Some (P t1)"
    if a1: "answered_ok (net 1 url resource_params) = Some t1"
  proof (rule map_of_dict_update_unique)
    show "(''RESOURCE'', P t1) \<in> set (stored_entries net P url)"
      using assms a1 by (simp add: stored_entries_def del: One_nat_def)
    fix v' assume "(''RESOURCE'', v') \<in> set (stored_entries net P url)"
    then show "v' = P t1"
      using assms a1 not_level(2) by (simp add: stored_entries_def del: One_nat_def)
  qed
qed


lemma stored_entries_mem:
  assumes det: "\<forall>n p. net n url p = srv p"
    and a0: "answered_ok (srv system_params) = Some t0"
    and a1: "answered_ok (srv resource_params) = Some t1"
  shows "(k, v) \<in> set (stored_entries net P url) \<longleftrightarrow>
         (k = ''SYSTEM'' \<and> v = P t0) \<or> (k = ''RESOURCE'' \<and> v = P t1) \<or>
         (k, v) \<in> set (stored_classes net P url (resource_names (P t1)) 2)"
proof -
  have "net 0 url system_params = srv system_params" "net 1 url resource_params = srv resource_params"
    using det by simp_all
  then show ?thesis
    by (simp add: stored_entries_def a0 a1 del: One_nat_def)
qed

lemma class_entry_value:
  assumes det: "\<forall>n p. net n url p = srv p"
    and a0: "answered_ok (srv system_params) = Some t0"
    and a1: "answered_ok (srv resource_params) = Some t1"
    and rn: "rn \<in> set (resource_names (P t1))"
    and ok: "answered_ok (srv (class_params rn)) = Some t"
  shows "map_of (dict_update [] (stored_entries net P url)) (''CLASS_'' @ rn) = Some (P t)"
proof (rule map_of_dict_update_unique)
  note em = stored_entries_mem[where net = net and url = url and srv = srv, OF det a0 a1]
  note cm = stored_classes_mem[where net = net and url = url and srv = srv, OF det]
  have "(''CLASS_'' @ rn, P t) \<in> set (stored_classes net P url (resource_names (P t1)) 2)"
    unfolding cm using rn ok by blast
  then show "(''CLASS_'' @ rn, P t) \<in> set (stored_entries net P url)"
    unfolding em by blast
  fix v' assume "(''CLASS_'' @ rn, v') \<in> set (stored_entries net P url)"
  then have "(''CLASS_'' @ rn, v') \<in> set (stored_classes net P url (resource_names (P t1)) 2)"
    unfolding em by simp
  then obtain rn' t' where r': "answered_ok (srv (class_params rn')) = Some t'"
    and d: "(''CLASS_'' @ rn = ''CLASS_'' @ rn' \<and> v' = P t') \<or>
            (\<exists>cn tt. ''CLASS_'' @ rn = ''TABLE_'' @ rn' @ ''_'' @ cn \<and> v' = P tt)"
    unfolding cm by blast
  from d key_facts(5) have e: "''CLASS_'' @ rn = ''CLASS_'' @ rn'" and v: "v' = P t'" by blast+
  from e have "rn = rn'" by (simp only: key_facts(7))
  with r' ok have "t' = t" by simp
  with v show "v' = P t" by simp
qed

lemma class_entry_absent:
  assumes det: "\<forall>n p. net n url p = srv p"
    and a0: "answered_ok (srv system_params) = Some t0"
    and a1: "answered_ok (srv resource_params) = Some t1"
    and no: "answered_ok (srv (class_params rn)) = None"
  shows "map_of (dict_update [] (stored_entries net P url)) (''CLASS_'' @ rn) = None"
proof -
  note em = stored_entries_mem[where net = net and url = url and srv = srv, OF det a0 a1]
  note cm = stored_classes_mem[where net = net and url = url and srv = srv, OF det]
  have "(''CLASS_'' @ rn, v) \<notin> set (stored_entries net P url)" for v
  proof
    assume "(''CLASS_'' @ rn, v) \<in> set (stored_entries net P url)"
    then have "(''CLASS_'' @ rn, v) \<in> set (stored_classes net P url (resource_names (P t1)) 2)"
      unfolding em by simp
    then obtain rn' t' where r': "answered_ok (srv (class_params rn')) = Some t'"
      and d: "(''CLASS_'' @ rn = ''CLASS_'' @ rn' \<and> v = P t') \<or>
              (\<exists>cn tt. ''CLASS_'' @ rn = ''TABLE_'' @ rn' @ ''_'' @ cn \<and> v = P tt)"
      unfolding cm by blast
    from d key_facts(5) have "''CLASS_'' @ rn = ''CLASS_'' @ rn'" by blast
    then have "rn = rn'" by (simp only: key_facts(7))
    with r' no show False by simp
  qed
  then have "''CLASS_'' @ rn \<notin> fst ` set (stored_entries net P url)" by force
  then show ?thesis by (simp add: map_of_dict_update_absent)
qed

lemma table_entry_present:
  assumes det: "\<forall>n p. net n url p = srv p"
    and a0: "answered_ok (srv system_params) = Some t0"
    and a1: "answered_ok (srv resource_params) = Some t1"
    and rn: "rn \<in> set (resource_names (P t1))"
    and ok: "answered_ok (srv (class_params rn)) = Some t"
    and cn: "cn \<in> set (class_names (P t))"
    and tok: "answered_ok (srv (table_params rn cn)) = Some tt"
  shows "(''TABLE_'' @ rn @ ''_'' @ cn, P tt) \<in> set (stored_entries net P url)"
proof -
  note em = stored_entries_mem[where net = net and url = url and srv = srv, OF det a0 a1]
  note cm = stored_classes_mem[where net = net and url = url and srv = srv, OF det]
  have "(''TABLE_'' @ rn @ ''_'' @ cn, P tt) \<in>
          set (stored_classes net P url (resource_names (P t1)) 2)"
    unfolding cm using rn ok cn tok by blast
  then show ?thesis unfolding em by blast
qed

lemma table_entry_value:
  assumes det: "\<forall>n p. net n url p = srv p"
    and a0: "answered_ok (srv system_params) = Some t0"
    and a1: "answered_ok (srv resource_params) = Some t1"
    and rn: "rn \<in> set (resource_names (P t1))"
    and ok: "answered_ok (srv (class_params rn)) = Some t"
    and cn: "cn \<in> set (class_names (P t))"
    and tok: "answered_ok (srv (table_params rn cn)) = Some tt"
    and un: "\<forall>rn' \<in> set (resource_names (P t1)). \<forall>t'.
               answered_ok (srv (class_params rn')) = Some t' \<longrightarrow>
               (\<forall>cn' \<in> set (class_names (P t')).
                  rn' @ ''_'' @ cn' = rn @ ''_'' @ cn \<longrightarrow> rn' = rn \<and> cn' = cn)"
  shows "map_of (dict_update [] (stored_entries net P url)) (''TABLE_'' @ rn @ ''_'' @ cn) = Some (P tt)"
proof (rule map_of_dict_update_unique)
  note em = stored_entries_mem[where net = net and url = url and srv = srv, OF det a0 a1]
  note cm = stored_classes_mem[where net = net and url = url and srv = srv, OF det]
  show "(''TABLE_'' @ rn @ ''_'' @ cn, P tt) \<in> set (stored_entries net P url)"
    by (rule table_entry_present[where net = net and url = url and srv = srv,
          OF det a0 a1 rn ok cn tok])
  fix v' assume "(''TABLE_'' @ rn @ ''_'' @ cn, v') \<in> set (stored_entries net P url)"
  then have "(''TABLE_'' @ rn @ ''_'' @ cn, v') \<in>
               set (stored_classes net P url (resource_names (P t1)) 2)"
    unfolding em by simp
  then obtain rn' t' where m': "rn' \<in> set (resource_names (P t1))"
    and r': "answered_ok (srv (class_params rn')) = Some t'"
    and d: "(''TABLE_'' @ rn @ ''_'' @ cn = ''CLASS_'' @ rn' \<and> v' = P t') \<or>
            (\<exists>cn' tt'. cn' \<in> set (class_names (P t')) \<and>
                       answered_ok (srv (table_params rn' cn')) = Some tt' \<and>
                       ''TABLE_'' @ rn @ ''_'' @ cn = ''TABLE_'' @ rn' @ ''_'' @ cn' \<and> v' = P tt')"
    unfolding cm by blast
  from d key_facts(6) obtain cn' tt' where c': "cn' \<in> set (class_names (P t'))"
    and tr: "answered_ok (srv (table_params rn' cn')) = Some tt'"
    and e: "''TABLE_'' @ rn @ ''_'' @ cn = ''TABLE_'' @ rn' @ ''_'' @ cn'" and v: "v' = P tt'"
    by blast
  from e have "rn' @ ''_'' @ cn' = rn @ ''_'' @ cn" by (simp only: key_facts(8))
  with un m' r' c' have "rn' = rn \<and> cn' = cn" by blast
  with tr tok have "tt' = tt" by simp
  with v show "v' = P tt" by simp
qed


text \<open>
  C4, as stated, fails for a timeout: every request is inside one \<^verbatim>\<open>try\<close> whose handler
  returns \<^verbatim>\<open>None\<close>, so a request that raises after the system level has succeeded
  discards what was accumulated.
\<close>

theorem get_metadata_timeout_discards_system:
  "accepted (timeout_after_system 0 (rets_metadata_url live_client) system_params) \<and>
   get_metadata timeout_after_system (\<lambda>s. None) live_client = None"
  by (simp add: accepted_def timeout_after_system_def ok_response_def get_metadata_def
        live_client_def)

text \<open>
  C4, amended. Take a run of \<^verbatim>\<open>get_metadata\<close> on a connected client, and call a level
  successful when its request is answered with status 200. The call returns \<^verbatim>\<open>None\<close>
  exactly when one of the requests it sends raises, at whatever level, or the
  \<^verbatim>\<open>METADATA-SYSTEM\<close> request is not successful. In every other run it returns the dict
  \<open>md\<close> of the entries stored by the levels that succeeded, whatever the statuses of the
  other requests are: \<^verbatim>\<open>SYSTEM\<close> holds the parsed system response; when the resource
  request is not successful \<open>md\<close> has that one key, and otherwise \<^verbatim>\<open>RESOURCE\<close> holds the
  parsed resource response. On a server that answers each request by its parameters
  alone, for every named resource of the resource response: \<^verbatim>\<open>CLASS_<resource>\<close> is
  absent when its class request is not successful and holds the parsed class response
  when it is; and then, for every named class of that response whose table request is
  successful, \<^verbatim>\<open>TABLE_<resource>_<class>\<close> is a key of \<open>md\<close>, and it holds the parsed table
  response when no other resource and class of the run give the same key.
\<close>

theorem get_metadata_partial_failure:
  assumes "rets_connected c" and "rets_session c"
    and P: "P = parse_metadata_response xml_parse"
    and url: "url = rets_metadata_url c"
    and md: "md = dict_update [] (stored_entries net P url)"
  shows
    "get_metadata net xml_parse c =
       (if (\<exists>(i, p) \<in> set (sent_requests net P url). raises (net i url p)) \<or>
           answered_ok (net 0 url system_params) = None
        then None else Some md) \<and>
     (\<forall>t0. answered_ok (net 0 url system_params) = Some t0 \<longrightarrow>
        map_of md ''SYSTEM'' = Some (P t0) \<and>
        (answered_ok (net 1 url resource_params) = None \<longrightarrow> md = [(''SYSTEM'', P t0)]) \<and>
        (\<forall>t1. answered_ok (net 1 url resource_params) = Some t1 \<longrightarrow>
           map_of md ''RESOURCE'' = Some (P t1))) \<and>
     ((\<forall>n p. net n url p = srv p) \<longrightarrow>
      (\<forall>t0 t1. answered_ok (srv system_params) = Some t0 \<and>
               answered_ok (srv resource_params) = Some t1 \<longrightarrow>
         (\<forall>rn \<in> set (resource_names (P t1)).
            (answered_ok (srv (class_params rn)) = None \<longrightarrow>
               map_of md (''CLASS_'' @ rn) = None) \<and>
            (\<forall>t. answered_ok (srv (class_params rn)) = Some t \<longrightarrow>
               map_of md (''CLASS_'' @ rn) = Some (P t) \<and>
               (\<forall>cn \<in> set (class_names (P t)). \<forall>tt.
                  answered_ok (srv (table_params rn cn)) = Some tt \<longrightarrow>
                  ''TABLE_'' @ rn @ ''_'' @ cn \<in> fst ` set md \<and>
                  ((\<forall>rn' \<in> set (resource_names (P t1)). \<forall>t'.
                      answered_ok (srv (class_params rn')) = Some t' \<longrightarrow>
                      (\<forall>cn' \<in> set (class_names (P t')).
                         rn' @ ''_'' @ cn' = rn @ ''_'' @ cn \<longrightarrow> rn' = rn \<and> cn' = cn)) \<longrightarrow>
                   map_of md (''TABLE_'' @ rn @ ''_'' @ cn) = Some (P tt)))))))"
proof (intro conjI)
  show "get_metadata net xml_parse c =
       (if (\<exists>(i, p) \<in> set (sent_requests net P url). raises (net i url p)) \<or>
           answered_ok (net 0 url system_params) = None
        then None else Some md)"
    unfolding md P url some_raises_def[symmetric]
    by (rule get_metadata_spec[OF assms(1,2)])
next
  show "\<forall>t0. answered_ok (net 0 url system_params) = Some t0 \<longrightarrow>
        map_of md ''SYSTEM'' = Some (P t0) \<and>
        (answered_ok (net 1 url resource_params) = None \<longrightarrow> md = [(''SYSTEM'', P t0)]) \<and>
        (\<forall>t1. answered_ok (net 1 url resource_params) = Some t1 \<longrightarrow>
           map_of md ''RESOURCE'' = Some (P t1))"
    unfolding md
    using stored_entries_base[where net = net and url = url and P = P]
    by (intro allI impI conjI) blast+
next
  show "(\<forall>n p. net n url p = srv p) \<longrightarrow>
      (\<forall>t0 t1. answered_ok (srv system_params) = Some t0 \<and>
               answered_ok (srv resource_params) = Some t1 \<longrightarrow>
         (\<forall>rn \<in> set (resource_names (P t1)).
            (answered_ok (srv (class_params rn)) = None \<longrightarrow>
               map_of md (''CLASS_'' @ rn) = None) \<and>
            (\<forall>t. answered_ok (srv (class_params rn)) = Some t \<longrightarrow>
               map_of md (''CLASS_'' @ rn) = Some (P t) \<and>
               (\<forall>cn \<in> set (class_names (P t)). \<forall>tt.
                  answered_ok (srv (table_params rn cn)) = Some tt \<longrightarrow>
                  ''TABLE_'' @ rn @ ''_'' @ cn \<in> fst ` set md \<and>
                  ((\<forall>rn' \<in> set (resource_names (P t1)). \<forall>t'.
                      answered_ok (srv (class_params rn')) = Some t' \<longrightarrow>
                      (\<forall>cn' \<in> set (class_names (P t')).
                         rn' @ ''_'' @ cn' = rn @ ''_'' @ cn \<longrightarrow> rn' = rn \<and> cn' = cn)) \<longrightarrow>
                   map_of md (''TABLE_'' @ rn @ ''_'' @ cn) = Some (P tt))))))"
  proof (intro impI allI ballI conjI; (elim conjE)?)
    fix t0 t1 rn
    assume det: "\<forall>n p. net n url p = srv p"
      and a0: "answered_ok (srv system_params) = Some t0"
      and a1: "answered_ok (srv resource_params) = Some t1"
      and rn: "rn \<in> set (resource_names (P t1))"
    {
      assume "answered_ok (srv (class_params rn)) = None"
      then show "map_of md (''CLASS_'' @ rn) = None"
        unfolding md
        by (rule class_entry_absent[where net = net and url = url and srv = srv and P = P, OF det a0 a1])
    }
    fix t assume ok: "answered_ok (srv (class_params rn)) = Some t"
    show "map_of md (''CLASS_'' @ rn) = Some (P t)"
      unfolding md
      by (rule class_entry_value[where net = net and url = url and srv = srv and P = P,
            OF det a0 a1 rn ok])
    fix cn tt
    assume cn: "cn \<in> set (class_names (P t))"
      and tok: "answered_ok (srv (table_params rn cn)) = Some tt"
    have "(''TABLE_'' @ rn @ ''_'' @ cn, P tt) \<in> set (stored_entries net P url)"
      by (rule table_entry_present[where net = net and url = url and srv = srv and P = P,
            OF det a0 a1 rn ok cn tok])
    then have "''TABLE_'' @ rn @ ''_'' @ cn \<in> fst ` set (stored_entries net P url)"
      by (rule rev_image_eqI) simp
    then show "''TABLE_'' @ rn @ ''_'' @ cn \<in> fst ` set md"
      unfolding md keys_dict_update by simp
    assume "\<forall>rn' \<in> set (resource_names (P t1)). \<forall>t'.
              answered_ok (srv (class_params rn')) = Some t' \<longrightarrow>
              (\<forall>cn' \<in> set (class_names (P t')).
                 rn' @ ''_'' @ cn' = rn @ ''_'' @ cn \<longrightarrow> rn' = rn \<and> cn' = cn)"
    then show "map_of md (''TABLE_'' @ rn @ ''_'' @ cn) = Some (P tt)"
      unfolding md
      by (rule table_entry_value[where net = net and url = url and srv = srv and P = P,
            OF det a0 a1 rn ok cn tok])
  qed
qed

lemma sample_server_answers:
  "answered_ok (sample_server system_params) = Some ''S''"
  "answered_ok (sample_server resource_params) = Some ''R''"
  "answered_ok (sample_server (class_params ''Property'')) = Some ''C''"
  "answered_ok (sample_server (class_params ''Agent'')) = None"
  "answered_ok (sample_server (table_params ''Property'' ''RES'')) = Some ''T''"
  by code_simp+

lemma sample_names:
  "resource_names (parse_metadata_response sample_xml ''R'') = [''Property'', ''Agent'']"
  "class_names (parse_metadata_response sample_xml ''C'') = [''RES'']"
  by code_simp+

lemma sample_net_det: "\<forall>n p. sample_net n (rets_metadata_url live_client) p = sample_server p"
  by (simp add: sample_net_def)

lemma sample_net_quiet:
  "\<not> (\<exists>(i, p) \<in> set reqs. raises (sample_net i url p))"
  by (auto simp: sample_net_def sample_server_def raises_def)

lemma sample_unambiguous:
  "\<forall>rn' \<in> set (resource_names (parse_metadata_response sample_xml ''R'')). \<forall>t'.
      answered_ok (sample_server (class_params rn')) = Some t' \<longrightarrow>
      (\<forall>cn' \<in> set (class_names (parse_metadata_response sample_xml t')).
         rn' @ ''_'' @ cn' = ''Property'' @ ''_'' @ ''RES'' \<longrightarrow>
         rn' = ''Property'' \<and> cn' = ''RES'')"
  unfolding sample_names(1)
  using sample_server_answers(3,4) sample_names(2) by simp

theorem get_metadata_partial_failure_witness:
  "rets_connected live_client \<and> rets_session live_client \<and>
   answered_ok (sample_server system_params) = Some ''S'' \<and>
   answered_ok (sample_server resource_params) = Some ''R'' \<and>
   ''Property'' \<in> set (resource_names (parse_metadata_response sample_xml ''R'')) \<and>
   ''Agent'' \<in> set (resource_names (parse_metadata_response sample_xml ''R'')) \<and>
   answered_ok (sample_server (class_params ''Property'')) = Some ''C'' \<and>
   answered_ok (sample_server (class_params ''Agent'')) = None \<and>
   ''RES'' \<in> set (class_names (parse_metadata_response sample_xml ''C'')) \<and>
   answered_ok (sample_server (table_params ''Property'' ''RES'')) = Some ''T'' \<and>
   (\<exists>md. get_metadata sample_net sample_xml live_client = Some md \<and>
      map_of md ''SYSTEM'' = Some (parse_metadata_response sample_xml ''S'') \<and>
      map_of md ''RESOURCE'' = Some (parse_metadata_response sample_xml ''R'') \<and>
      map_of md (''CLASS_'' @ ''Property'') = Some (parse_metadata_response sample_xml ''C'') \<and>
      map_of md (''CLASS_'' @ ''Agent'') = None \<and>
      ''TABLE_'' @ ''Property'' @ ''_'' @ ''RES'' \<in> fst ` set md \<and>
      map_of md (''TABLE_'' @ ''Property'' @ ''_'' @ ''RES'') =
        Some (parse_metadata_response sample_xml ''T''))"
proof -
  define P where "P = parse_metadata_response sample_xml"
  define url where "url = rets_metadata_url live_client"
  define md where "md = dict_update [] (stored_entries sample_net P url)"
  note t = get_metadata_partial_failure [where c = live_client and net = sample_net
      and xml_parse = sample_xml and P = P and url = url and md = md and srv = sample_server,
      OF live_client_ok P_def url_def md_def]
  note a = sample_server_answers
  have s0: "answered_ok (sample_net 0 url system_params) = Some ''S''"
    and s1: "answered_ok (sample_net 1 url resource_params) = Some ''R''"
    unfolding sample_net_def by (rule a(1), rule a(2))
  have rP: "''Property'' \<in> set (resource_names (P ''R''))"
    and rA: "''Agent'' \<in> set (resource_names (P ''R''))"
    and cR: "''RES'' \<in> set (class_names (P ''C''))"
    unfolding P_def sample_names by simp_all
  have g: "get_metadata sample_net sample_xml live_client = Some md"
    using conjunct1 [OF t] sample_net_quiet [where url = url] s0 by simp
  note base = mp [OF spec [OF conjunct1 [OF conjunct2 [OF t]]] s0]
  have mS: "map_of md ''SYSTEM'' = Some (P ''S'')" by (rule conjunct1 [OF base])
  have mR: "map_of md ''RESOURCE'' = Some (P ''R'')"
    by (rule mp [OF spec [OF conjunct2 [OF conjunct2 [OF base]]] s1])
  have det: "\<forall>n p. sample_net n url p = sample_server p" by (simp add: sample_net_def)
  note lv = mp [OF spec [OF spec [OF mp [OF conjunct2 [OF conjunct2 [OF t]] det]]]
                  conjI [OF a(1) a(2)]]
  have mA: "map_of md (''CLASS_'' @ ''Agent'') = None"
    by (rule mp [OF conjunct1 [OF bspec [OF lv rA]] a(4)])
  note cl = mp [OF spec [OF conjunct2 [OF bspec [OF lv rP]]] a(3)]
  have mC: "map_of md (''CLASS_'' @ ''Property'') = Some (P ''C'')" by (rule conjunct1 [OF cl])
  note tb = mp [OF spec [OF bspec [OF conjunct2 [OF cl] cR]] a(5)]
  have kT: "''TABLE_'' @ ''Property'' @ ''_'' @ ''RES'' \<in> fst ` set md" by (rule conjunct1 [OF tb])
  have mT: "map_of md (''TABLE_'' @ ''Property'' @ ''_'' @ ''RES'') = Some (P ''T'')"
    by (rule mp [OF conjunct2 [OF tb] sample_unambiguous [folded P_def]])
  have e: "\<exists>md. get_metadata sample_net sample_xml live_client = Some md \<and>
      map_of md ''SYSTEM'' = Some (P ''S'') \<and>
      map_of md ''RESOURCE'' = Some (P ''R'') \<and>
      map_of md (''CLASS_'' @ ''Property'') = Some (P ''C'') \<and>
      map_of md (''CLASS_'' @ ''Agent'') = None \<and>
      ''TABLE_'' @ ''Property'' @ ''_'' @ ''RES'' \<in> fst ` set md \<and>
      map_of md (''TABLE_'' @ ''Property'' @ ''_'' @ ''RES'') = Some (P ''T'')"
    by (rule exI [where x = md],
        rule conjI [OF g conjI [OF mS conjI [OF mR conjI [OF mC conjI [OF mA conjI [OF kT mT]]]]]])
  show ?thesis
    by (rule conjI [OF live_client_ok(1) conjI [OF live_client_ok(2)
          conjI [OF a(1) conjI [OF a(2) conjI [OF rP [unfolded P_def] conjI [OF rA [unfolded P_def]
          conjI [OF a(3) conjI [OF a(4) conjI [OF cR [unfolded P_def] conjI [OF a(5)
          e [unfolded P_def]]]]]]]]]]])
qed

end
